theory Spec2Isabelle
  imports Main "HOL-Library.Word"
begin

section \<open>JavaScript strings\<close>

text \<open>
  A JavaScript string is a sequence of UTF-16 code units. The reserved character of the
  repository (U+27C1, the XJSON key prefix and the SCX separator) is one code unit, so
  \<open>key.slice(1)\<close> removes exactly it and \<open>split\<close> cuts at exactly it.
  \<open>js\<close> turns an ASCII literal into such a string.
\<close>

type_synonym jstr = "16 word list"

definition js :: "string \<Rightarrow> jstr" where
  "js s = map of_char s"

definition startsWith :: "jstr \<Rightarrow> jstr \<Rightarrow> bool" where
  "startsWith s p = (take (length p) s = p)"

text \<open>Decimal digits of a non-negative integer, and the value of a digit string.\<close>

function show_dec :: "int \<Rightarrow> jstr" where
  "show_dec n =
     (if n < 10 then [word_of_int (48 + n)]
      else show_dec (n div 10) @ [word_of_int (48 + n mod 10)])"
  by pat_completeness auto
termination
  by (relation "measure nat") auto

declare show_dec.simps [simp del]

definition dec_val :: "jstr \<Rightarrow> int" where
  "dec_val s = foldl (\<lambda>a c. 10 * a + (uint c - 48)) 0 s"

text \<open>
  An array index in the sense of ECMAScript: the canonical decimal form of an integer
  from 0 to \<open>2^32 - 2\<close>. Own properties with such keys are listed first, in
  ascending order, by \<open>Object.entries\<close>.
\<close>

definition array_index :: "jstr \<Rightarrow> int option" where
  "array_index k =
     (if show_dec (dec_val k) = k \<and> 0 \<le> dec_val k \<and> dec_val k < 4294967295
      then Some (dec_val k) else None)"


section \<open>JavaScript values\<close>

text \<open>
  The values the orchestration core handles: JSON trees, \<open>undefined\<close>, and a
  reference to a shard instance (the \<open>shard\<close> entry of the context that
  \<open>routeToShard\<close> hands to the engine). Numbers are a type parameter: the code
  only prints, parses and tests them, through the built-in functions collected in
  \<open>builtins\<close> below.

  An object is the list of its own enumerable properties in the order
  \<open>Object.entries\<close> yields them. The prototype link is not part of the model.
\<close>

datatype 'n jsval =
    JUndef
  | JNull
  | JBool bool
  | JNum 'n
  | JStr jstr
  | JArr "'n jsval list"
  | JObj "(jstr \<times> 'n jsval) list"
  | JShard "'n jsval"

text \<open>
  Creating or overwriting an own property. An existing key keeps its place; a new
  array-index key goes among the index keys in ascending order, any other new key to
  the end.
\<close>

fun ins_index :: "int \<Rightarrow> jstr \<times> 'v \<Rightarrow> (jstr \<times> 'v) list \<Rightarrow> (jstr \<times> 'v) list" where
  "ins_index i e [] = [e]"
| "ins_index i e (p # ps) =
     (case array_index (fst p) of
        Some j \<Rightarrow> if j < i then p # ins_index i e ps else e # p # ps
      | None \<Rightarrow> e # p # ps)"

definition obj_put :: "(jstr \<times> 'v) list \<Rightarrow> jstr \<Rightarrow> 'v \<Rightarrow> (jstr \<times> 'v) list" where
  "obj_put ob k v =
     (if k \<in> set (map fst ob) then map (\<lambda>p. if fst p = k then (k, v) else p) ob
      else case array_index k of
             Some i \<Rightarrow> ins_index i (k, v) ob
           | None \<Rightarrow> ob @ [(k, v)])"

text \<open>
  The assignment \<open>ob[k] = v\<close> on an object created by \<open>{}\<close>. The key
  \<open>__proto__\<close> is an inherited accessor: assigning to it creates no own property
  (it may replace the prototype, which the model does not track; the theorems below
  exclude that key).
\<close>

definition obj_assign :: "(jstr \<times> 'v) list \<Rightarrow> jstr \<Rightarrow> 'v \<Rightarrow> (jstr \<times> 'v) list" where
  "obj_assign ob k v = (if k = js ''__proto__'' then ob else obj_put ob k v)"

text \<open>The order in which own keys are listed: index keys ascending, then the others.\<close>

definition key_before :: "jstr \<Rightarrow> jstr \<Rightarrow> bool" where
  "key_before a b =
     (case array_index a of
        Some i \<Rightarrow> (case array_index b of Some j \<Rightarrow> i < j | None \<Rightarrow> True)
      | None \<Rightarrow> array_index b = None)"

definition entries_ok :: "(jstr \<times> 'v) list \<Rightarrow> bool" where
  "entries_ok ob = (distinct (map fst ob) \<and> sorted_wrt key_before (map fst ob))"


section \<open>Built-in functions and conversions\<close>

text \<open>
  The built-in functions of the language that the code applies to numbers and to JSON
  text. They are parameters of the model: every theorem holds for any choice of them.
  \<^item> \<open>Number_toString n\<close> is \<open>String(n)\<close>;
  \<^item> \<open>Number_falsy n\<close> holds when \<open>n\<close> is zero or NaN;
  \<^item> \<open>isNaN s\<close> is the global \<open>isNaN\<close> applied to the string \<open>s\<close>;
  \<^item> \<open>parseFloat s\<close> is \<open>parseFloat(s)\<close>;
  \<^item> \<open>JSON_parse s\<close> is \<open>JSON.parse(s)\<close>, \<open>None\<close> when it throws a SyntaxError;
  \<^item> \<open>Number_of_int i\<close> is the number that the integer literal \<open>i\<close> denotes.
\<close>

record 'n builtins =
  Number_toString :: "'n \<Rightarrow> jstr"
  Number_falsy :: "'n \<Rightarrow> bool"
  isNaN :: "jstr \<Rightarrow> bool"
  parseFloat :: "jstr \<Rightarrow> 'n"
  JSON_parse :: "jstr \<Rightarrow> 'n jsval option"
  Number_of_int :: "int \<Rightarrow> 'n"

text \<open>What the code can throw.\<close>

datatype js_error =
    TypeError
  | SyntaxError
  | Error jstr
  | XJSON_parse_error
  | Unmodelled

text \<open>
  \<open>Error msg\<close> is \<open>new Error(msg)\<close>; \<open>XJSON_parse_error\<close> is the Error that
  \<open>XJSONParser.parse\<close> throws, whose message ends with the engine's own text.
  \<open>Unmodelled\<close> is not an exception of the program: it marks a run that leaves the
  model, because it reads or writes through the prototype chain, or builds an array
  with holes or with named properties.
\<close>

definition is_nullish :: "'n jsval \<Rightarrow> bool" where
  "is_nullish v = (case v of JUndef \<Rightarrow> True | JNull \<Rightarrow> True | _ \<Rightarrow> False)"

fun join :: "jstr \<Rightarrow> jstr list \<Rightarrow> jstr" where
  "join s [] = []"
| "join s [x] = x"
| "join s (x # y # ys) = x @ s @ join s (y # ys)"

text \<open>
  \<open>String(v)\<close>, also the conversion of a template literal. An object with an own
  property \<open>toString\<close> (which, in a JSON tree, is not callable) cannot be converted:
  \<open>None\<close> stands for the TypeError.
\<close>

fun js_String :: "'n builtins \<Rightarrow> 'n jsval \<Rightarrow> jstr option" where
  "js_String env JUndef = Some (js ''undefined'')"
| "js_String env JNull = Some (js ''null'')"
| "js_String env (JBool b) = Some (if b then js ''true'' else js ''false'')"
| "js_String env (JNum n) = Some (Number_toString env n)"
| "js_String env (JStr s) = Some s"
| "js_String env (JArr xs) =
     map_option (join (js '',''))
       (those (map (\<lambda>x. if is_nullish x then Some [] else js_String env x) xs))"
| "js_String env (JObj kvs) =
     (if js ''toString'' \<in> set (map fst kvs) then None else Some (js ''[object Object]''))"
| "js_String env (JShard s) = Some (js ''[object Object]'')"

text \<open>\<open>args.join(sep)\<close> on an array of values.\<close>

definition join_values :: "'n builtins \<Rightarrow> jstr \<Rightarrow> 'n jsval list \<Rightarrow> jstr option" where
  "join_values env s xs =
     map_option (join s) (those (map (\<lambda>x. if is_nullish x then Some [] else js_String env x) xs))"

fun truthy :: "'n builtins \<Rightarrow> 'n jsval \<Rightarrow> bool" where
  "truthy env JUndef = False"
| "truthy env JNull = False"
| "truthy env (JBool b) = b"
| "truthy env (JNum n) = (\<not> Number_falsy env n)"
| "truthy env (JStr s) = (s \<noteq> [])"
| "truthy env v = True"

text \<open>\<open>a || b\<close>\<close>

definition js_or :: "'n builtins \<Rightarrow> 'n jsval \<Rightarrow> 'n jsval \<Rightarrow> 'n jsval" where
  "js_or env a b = (if truthy env a then a else b)"

text \<open>
  Reading a property by a name of the definition format (\<open>id\<close>, \<open>port\<close>,
  \<open>api\<close>, \<open>path\<close>, ...). None of these names is a property of an array, a string,
  a number or a boolean, so only an object can answer; \<open>undefined\<close> and
  \<open>null\<close> throw.
\<close>

fun get_field :: "'n jsval \<Rightarrow> jstr \<Rightarrow> js_error + 'n jsval" where
  "get_field JUndef name = Inl TypeError"
| "get_field JNull name = Inl TypeError"
| "get_field (JObj kvs) name = Inr (case map_of kvs name of Some v \<Rightarrow> v | None \<Rightarrow> JUndef)"
| "get_field v name = Inr JUndef"

text \<open>Splitting at every character that satisfies \<open>P\<close>, as \<open>split\<close> does.\<close>

fun split_on :: "('a \<Rightarrow> bool) \<Rightarrow> 'a list \<Rightarrow> 'a list list" where
  "split_on P [] = [[]]"
| "split_on P (x # xs) =
     (if P x then [] # split_on P xs
      else (case split_on P xs of p # ps \<Rightarrow> (x # p) # ps | [] \<Rightarrow> [[x]]))"

text \<open>\<open>.filter(Boolean)\<close> on an array of strings\<close>

definition nonempty :: "jstr list \<Rightarrow> jstr list" where
  "nonempty xs = filter (\<lambda>x. x \<noteq> []) xs"

text \<open>The character classes \<open>\w\<close> and \<open>\s\<close> (also the characters \<open>trim\<close> strips).\<close>

definition is_word :: "16 word \<Rightarrow> bool" where
  "is_word c = ((48 \<le> c \<and> c \<le> 57) \<or> (65 \<le> c \<and> c \<le> 90) \<or> c = 95 \<or> (97 \<le> c \<and> c \<le> 122))"

definition is_space :: "16 word \<Rightarrow> bool" where
  "is_space c =
     ((9 \<le> c \<and> c \<le> 13) \<or> c = 32 \<or> c = 0xA0 \<or> c = 0x1680 \<or> (0x2000 \<le> c \<and> c \<le> 0x200A)
      \<or> c = 0x2028 \<or> c = 0x2029 \<or> c = 0x202F \<or> c = 0x205F \<or> c = 0x3000 \<or> c = 0xFEFF)"


section \<open>XJSON: the definition normalizer (lib/xjson/parser.js)\<close>

definition xjson_prefix :: jstr where
  "xjson_prefix = [0x27C1]"

text \<open>\<open>key.startsWith(this.prefix) ? key.slice(1) : key\<close>\<close>

definition cleanKey :: "jstr \<Rightarrow> jstr" where
  "cleanKey key = (if startsWith key xjson_prefix then drop 1 key else key)"

text \<open>
  \<open>XJSONParser.normalize\<close>: arrays are mapped, objects are rebuilt entry by entry
  under the cleaned key, anything else is returned as it is.
\<close>

fun xjson_normalize :: "'n jsval \<Rightarrow> 'n jsval" where
  "xjson_normalize (JArr xs) = JArr (map xjson_normalize xs)"
| "xjson_normalize (JObj kvs) =
     JObj (fold (\<lambda>(key, value) normalized. obj_assign normalized (cleanKey key) (xjson_normalize value))
             kvs [])"
| "xjson_normalize v = v"

text \<open>
  The trees of the definition format: JSON trees in which a key carries the prefix at
  most once and no key is \<open>__proto__\<close>, prefixed or not.
\<close>

definition plain_key :: "jstr \<Rightarrow> bool" where
  "plain_key key = (\<not> startsWith (cleanKey key) xjson_prefix \<and> cleanKey key \<noteq> js ''__proto__'')"

fun single_prefixed :: "'n jsval \<Rightarrow> bool" where
  "single_prefixed (JArr xs) = list_all single_prefixed xs"
| "single_prefixed (JObj kvs) = list_all (\<lambda>(key, value). plain_key key \<and> single_prefixed value) kvs"
| "single_prefixed (JShard s) = False"
| "single_prefixed v = True"


section \<open>SCX: the compact encoding (lib/scx/codec.js)\<close>

definition separator :: "16 word" where
  "separator = 0x27C1"

text \<open>The compression dictionary, in the order of the source's object literal.\<close>

definition dictionary :: "(jstr \<times> jstr) list" where
  "dictionary =
    [(js ''@shard'', js ''s''), (js ''shard'', js ''s''), (js ''id'', js ''i''),
     (js ''api'', js ''a''), (js ''path'', js ''p''), (js ''method'', js ''m''),
     (js ''handler'', js ''h''), (js ''view'', js ''v''), (js ''@html'', js ''H''),
     (js ''html'', js ''H''), (js ''@body'', js ''B''), (js ''body'', js ''B''),
     (js ''@node'', js ''n''), (js ''node'', js ''n''), (js ''attrs'', js ''A''),
     (js ''children'', js ''c''), (js ''port'', js ''P''), (js ''runtime'', js ''r''),
     (js ''hive'', js ''H''), (js ''shards'', js ''S''), (js ''mesh'', js ''M''),
     (js ''protocol'', js ''pr''), (js ''ports'', js ''Ps''),
     (js ''Pop'', js ''Pp''), (js ''Wo'', js ''W''), (js ''Ch'' @ [39] @ js ''en'', js ''C''),
     (js ''Yax'', js ''Y''), (js ''Sek'', js ''S''), (js ''K'' @ [39] @ js ''ayab'' @ [39], js ''K''),
     (js ''Kumk'' @ [39] @ js ''u'', js ''Km''), (js ''Xul'', js ''X''),
     (js ''GET'', js ''G''), (js ''POST'', js ''Po''), (js ''PUT'', js ''Pu''),
     (js ''DELETE'', js ''D''), (js ''virtual-rest'', js ''vr''), (js ''kuhul'', js ''k'')]"

text \<open>
  \<open>Object.fromEntries(Object.entries(this.dictionary).map(([k, v]) => [v, k]))\<close>:
  where two long forms share a token, the later one is kept.
\<close>

definition reverseDictionary :: "(jstr \<times> jstr) list" where
  "reverseDictionary = fold (\<lambda>(k, v) ob. obj_put ob v k) dictionary []"

text \<open>
  \<open>dict[name] || name\<close>. The dictionaries are plain objects; the model looks a name
  up among their own entries. A name that is a member of \<open>Object.prototype\<close>
  would find that member instead; the theorems below exclude such names.
\<close>

definition proto_member :: "jstr \<Rightarrow> bool" where
  "proto_member name =
     (name \<in> set [js ''constructor'', js ''hasOwnProperty'', js ''isPrototypeOf'',
        js ''propertyIsEnumerable'', js ''toLocaleString'', js ''toString'', js ''valueOf'',
        js ''__proto__'', js ''__defineGetter__'', js ''__defineSetter__'',
        js ''__lookupGetter__'', js ''__lookupSetter__''])"

definition lookup_or :: "(jstr \<times> jstr) list \<Rightarrow> jstr \<Rightarrow> jstr" where
  "lookup_or dict name = (case map_of dict name of Some t \<Rightarrow> if t \<noteq> [] then t else name | None \<Rightarrow> name)"

text \<open>
  \<open>compressObject\<close> and \<open>decompressObject\<close> are the same function over the two
  dictionaries: keys and string values are substituted, other values are visited.
  The data layer never receives a shard reference and treats one as an atom.
\<close>

fun substituteObject :: "(jstr \<times> jstr) list \<Rightarrow> 'n jsval \<Rightarrow> 'n jsval" where
  "substituteObject dict (JArr xs) = JArr (map (substituteObject dict) xs)"
| "substituteObject dict (JObj kvs) =
     JObj (fold (\<lambda>(key, value) result.
                   obj_assign result (lookup_or dict key)
                     (case value of JStr s \<Rightarrow> JStr (lookup_or dict s) | _ \<Rightarrow> substituteObject dict value))
             kvs [])"
| "substituteObject dict v = v"

definition compressObject :: "'n jsval \<Rightarrow> 'n jsval" where
  "compressObject obj = substituteObject dictionary obj"

definition decompressObject :: "'n jsval \<Rightarrow> 'n jsval" where
  "decompressObject obj = substituteObject reverseDictionary obj"

text \<open>
  \<open>flattenObject\<close>, returning the parts it pushes. A leaf pushes its path and
  \<open>String(leaf)\<close>, which cannot fail on a primitive.
\<close>

function (sequential) flattenObject :: "'n builtins \<Rightarrow> 'n jsval \<Rightarrow> jstr \<Rightarrow> jstr list" where
  "flattenObject env (JArr xs) pre =
     concat (map (\<lambda>(item, idx). flattenObject env item (pre @ js ''['' @ show_dec (int idx) @ js '']''))
               (zip xs [0..<length xs]))"
| "flattenObject env (JObj kvs) pre =
     concat (map (\<lambda>(key, value). flattenObject env value (if pre \<noteq> [] then pre @ js ''.'' @ key else key))
               kvs)"
| "flattenObject env v pre = [pre, case js_String env v of Some s \<Rightarrow> s | None \<Rightarrow> []]"
  by pat_completeness auto
termination
proof (relation "measure (\<lambda>(env, v, pre). size v)", goal_cases)
  case 1
  show ?case by simp
next
  case (2 env xs pre p item idx)
  then have "item \<in> set xs" by (auto dest: set_zip_leftD)
  then have "size item \<le> size_list size xs" by (rule size_list_estimation') simp
  then show ?case by simp
next
  case (3 env kvs pre p key v)
  then have "size_prod (\<lambda>_. 0) size (key, v) \<le> size_list (size_prod (\<lambda>_. 0) size) kvs"
    by (intro size_list_estimation'[where x = "(key, v)"]) auto
  then show ?case by simp
qed

definition objectToSCXString :: "'n builtins \<Rightarrow> 'n jsval \<Rightarrow> jstr" where
  "objectToSCXString env obj = join [separator] (flattenObject env obj [])"

text \<open>\<open>parseValue\<close>, applied to a token of the string or to \<open>undefined\<close>.\<close>

fun parseValue :: "'n builtins \<Rightarrow> 'n jsval \<Rightarrow> 'n jsval" where
  "parseValue env (JStr s) =
     (if s = js ''true'' then JBool True
      else if s = js ''false'' then JBool False
      else if s = js ''null'' then JNull
      else if \<not> isNaN env s \<and> s \<noteq> [] then JNum (parseFloat env s)
      else JStr s)"
| "parseValue env v = v"

text \<open>
  \<open>setPath\<close> walks \<open>current\<close> down the path and assigns at its end. The model
  returns the updated container instead of mutating it; the three helpers are the
  three things the loop does to \<open>current\<close>.
  \<^item> \<open>descend\<close>: \<open>if (!(part in current)) current[part] = isNum ? [] : {}\<close>, then
    \<open>current[part]\<close>;
  \<^item> \<open>store_member\<close>: the container with the walked member put back;
  \<^item> \<open>assign_member\<close>: \<open>current[lastPart] = v\<close>.

  The code of a class is strict, so \<open>in\<close> and an assignment on a primitive throw a
  TypeError.
\<close>

fun descend :: "'n builtins \<Rightarrow> 'n jsval \<Rightarrow> jstr \<Rightarrow> js_error + 'n jsval" where
  "descend env (JObj kvs) part =
     (case map_of kvs part of
        Some v \<Rightarrow> Inr v
      | None \<Rightarrow> if proto_member part then Inl Unmodelled
                else Inr (if \<not> isNaN env part then JArr [] else JObj []))"
| "descend env (JArr xs) part =
     (case array_index part of
        Some i \<Rightarrow> if i < int (length xs) then Inr (xs ! nat i)
                  else if i = int (length xs) then Inr (if \<not> isNaN env part then JArr [] else JObj [])
                  else Inl Unmodelled
      | None \<Rightarrow> Inl Unmodelled)"
| "descend env (JShard s) part = Inl Unmodelled"
| "descend env v part = Inl TypeError"

fun store_member :: "'n jsval \<Rightarrow> jstr \<Rightarrow> 'n jsval \<Rightarrow> 'n jsval" where
  "store_member (JObj kvs) part child = JObj (obj_put kvs part child)"
| "store_member (JArr xs) part child =
     (case array_index part of
        Some i \<Rightarrow> if i < int (length xs) then JArr (xs[nat i := child]) else JArr (xs @ [child])
      | None \<Rightarrow> JArr xs)"
| "store_member v part child = v"

fun assign_member :: "'n jsval \<Rightarrow> jstr \<Rightarrow> 'n jsval \<Rightarrow> js_error + 'n jsval" where
  "assign_member (JObj kvs) key v =
     (if key = js ''__proto__'' then (if is_nullish v \<and> v \<noteq> JUndef then Inl Unmodelled else Inr (JObj kvs))
      else Inr (JObj (obj_put kvs key v)))"
| "assign_member (JArr xs) key v =
     (case array_index key of
        Some i \<Rightarrow> if i < int (length xs) then Inr (JArr (xs[nat i := v]))
                  else if i = int (length xs) then Inr (JArr (xs @ [v]))
                  else Inl Unmodelled
      | None \<Rightarrow> Inl Unmodelled)"
| "assign_member (JShard s) key v = Inl Unmodelled"
| "assign_member c key v = Inl TypeError"

fun setPath_parts :: "'n builtins \<Rightarrow> 'n jsval \<Rightarrow> jstr list \<Rightarrow> 'n jsval \<Rightarrow> js_error + 'n jsval" where
  "setPath_parts env current [] v = assign_member current (js ''undefined'') (parseValue env v)"
| "setPath_parts env current [lastPart] v = assign_member current lastPart (parseValue env v)"
| "setPath_parts env current (part # rest) v =
     (case descend env current part of
        Inl e \<Rightarrow> Inl e
      | Inr child \<Rightarrow>
          (case setPath_parts env child rest v of
             Inl e \<Rightarrow> Inl e
           | Inr child' \<Rightarrow> Inr (store_member current part child')))"

text \<open>\<open>path.split(/\.|\[|\]/).filter(Boolean)\<close>\<close>

definition path_parts :: "jstr \<Rightarrow> jstr list" where
  "path_parts path = nonempty (split_on (\<lambda>c. c = 46 \<or> c = 91 \<or> c = 93) path)"

definition setPath :: "'n builtins \<Rightarrow> 'n jsval \<Rightarrow> jstr \<Rightarrow> 'n jsval \<Rightarrow> js_error + 'n jsval" where
  "setPath env obj path v = setPath_parts env obj (path_parts path) v"

text \<open>
  The loop of \<open>scxStringToObject\<close> over \<open>parts[i]\<close>, \<open>parts[i + 1]\<close>: an empty
  path is skipped, a missing value is \<open>undefined\<close>.
\<close>

fun scx_pairs :: "'n builtins \<Rightarrow> jstr list \<Rightarrow> 'n jsval \<Rightarrow> js_error + 'n jsval" where
  "scx_pairs env [] obj = Inr obj"
| "scx_pairs env [path] obj = (if path = [] then Inr obj else setPath env obj path JUndef)"
| "scx_pairs env (path # v # rest) obj =
     (if path = [] then scx_pairs env rest obj
      else (case setPath env obj path (JStr v) of
              Inl e \<Rightarrow> Inl e
            | Inr obj' \<Rightarrow> scx_pairs env rest obj'))"

definition scxStringToObject :: "'n builtins \<Rightarrow> jstr \<Rightarrow> js_error + 'n jsval" where
  "scxStringToObject env scxString =
     scx_pairs env (split_on (\<lambda>c. c = separator) scxString) (JObj [])"

definition decode :: "'n builtins \<Rightarrow> jstr \<Rightarrow> js_error + 'n jsval" where
  "decode env scxString =
     (if separator \<notin> set scxString then Inr (JStr scxString)
      else (case scxStringToObject env scxString of
              Inl e \<Rightarrow> Inl e
            | Inr obj \<Rightarrow> Inr (decompressObject obj)))"

text \<open>
  \<open>compressString\<close>: for every dictionary entry in turn, each match of
  \<open>\bfull\b\<close> is replaced by the token. \<open>replace_word\<close> scans from the left;
  \<open>prev\<close> tells whether the character before the position is a word character. No
  long form contains a character that is special in a regular expression.
\<close>

definition next_is_word :: "jstr \<Rightarrow> bool" where
  "next_is_word s = (case s of [] \<Rightarrow> False | c # cs \<Rightarrow> is_word c)"

function replace_word :: "jstr \<Rightarrow> jstr \<Rightarrow> bool \<Rightarrow> jstr \<Rightarrow> jstr" where
  "replace_word full short prev [] = []"
| "replace_word full short prev (c # cs) =
     (if full \<noteq> [] \<and> startsWith (c # cs) full
         \<and> prev \<noteq> is_word (hd full)
         \<and> is_word (last full) \<noteq> next_is_word (drop (length full) (c # cs))
      then short @ replace_word full short (is_word (last full)) (drop (length full) (c # cs))
      else c # replace_word full short (is_word c) cs)"
  by pat_completeness auto
termination
  by (relation "measure (\<lambda>(full, short, prev, s). length s)") (auto simp: neq_Nil_conv)

definition compressString :: "jstr \<Rightarrow> jstr" where
  "compressString str =
     separator # fold (\<lambda>(full, short) compressed. replace_word full short False compressed) dictionary str"

definition encode :: "'n builtins \<Rightarrow> 'n jsval \<Rightarrow> jstr" where
  "encode env data =
     (case data of
        JStr s \<Rightarrow> (case JSON_parse env s of
                     None \<Rightarrow> compressString s
                   | Some parsed \<Rightarrow> objectToSCXString env (compressObject parsed))
      | _ \<Rightarrow> objectToSCXString env (compressObject data))"


section \<open>K'uhul: the glyph engine (lib/kuhul/vm.js)\<close>

text \<open>
  An instruction is \<open>{glyph, args, raw}\<close> parsed from a line of text, with strings as
  arguments, or the mock instruction \<open>{glyph: 'Sek', args: [code]}\<close> that
  \<open>parse\<close> returns for a handler that is not text.
\<close>

datatype 'n instruction = Glyph jstr "jstr list" | Mock "'n jsval"

text \<open>\<open>this.loopContext\<close>: never assigned, \<open>null\<close>, or \<open>{name, iterations: 0}\<close>.\<close>

datatype loop_context = Loop_undefined | Loop_null | Loop "jstr option"

text \<open>
  The engine. The stack grows at the end of the list, as the array does. The maps keep
  insertion order. No code ever adds an instruction to a function, so \<open>functionsMap\<close>
  (the map \<open>this.functions\<close>) is the list of defined names, each bound to the empty array. \<open>warnings\<close> collects
  the lines written by \<open>console.warn\<close>; \<open>dispatched\<close> counts the calls of
  \<open>executeInstruction\<close> (it is not a field of the class, and nothing reads it).
\<close>

record 'n kuhul_vm =
  stack :: "'n jsval list"
  variables :: "(jstr \<times> 'n jsval) list"
  functionsMap :: "jstr list"
  currentFunction :: "jstr option"
  loopContext :: loop_context
  halted :: bool
  warnings :: "jstr list"
  dispatched :: nat

definition KuhulVM_new :: "'n kuhul_vm" where
  "KuhulVM_new =
     \<lparr>stack = [], variables = [], functionsMap = [], currentFunction = None,
      loopContext = Loop_undefined, halted = False, warnings = [], dispatched = 0\<rparr>"

text \<open>\<open>Map.prototype.set\<close> and \<open>Object.fromEntries\<close>\<close>

definition map_set :: "('k \<times> 'v) list \<Rightarrow> 'k \<Rightarrow> 'v \<Rightarrow> ('k \<times> 'v) list" where
  "map_set m k v =
     (if k \<in> set (map fst m) then map (\<lambda>p. if fst p = k then (k, v) else p) m else m @ [(k, v)])"

definition fromEntries :: "(jstr \<times> 'v) list \<Rightarrow> (jstr \<times> 'v) list" where
  "fromEntries entries = fold (\<lambda>(k, v) ob. obj_put ob k v) entries []"

definition push :: "'n jsval \<Rightarrow> 'n kuhul_vm \<Rightarrow> 'n kuhul_vm" where
  "push v vm = vm\<lparr>stack := stack vm @ [v]\<rparr>"

text \<open>\<open>this.stack.pop()\<close>: \<open>undefined\<close> on an empty stack.\<close>

definition pop :: "'n kuhul_vm \<Rightarrow> 'n jsval \<times> 'n kuhul_vm" where
  "pop vm = (if stack vm = [] then (JUndef, vm) else (last (stack vm), vm\<lparr>stack := butlast (stack vm)\<rparr>))"

text \<open>\<open>s.slice(1, -1)\<close>\<close>

definition slice_1_m1 :: "jstr \<Rightarrow> jstr" where
  "slice_1_m1 s = butlast (drop 1 s)"

definition quoted :: "jstr \<Rightarrow> bool" where
  "quoted s = (startsWith s [34] \<or> startsWith s [39])"

subsection \<open>parse\<close>

definition trim :: "jstr \<Rightarrow> jstr" where
  "trim s = rev (dropWhile is_space (rev (dropWhile is_space s)))"

definition is_line_terminator :: "16 word \<Rightarrow> bool" where
  "is_line_terminator c = (c = 10 \<or> c = 13 \<or> c = 0x2028 \<or> c = 0x2029)"

text \<open>
  \<open>line.match(/^\[(\w+'?)\s*(.*?)\]$/)\<close>, giving the two groups. Every quantifier
  before the lazy group is greedy and none of them can take the closing bracket, and
  what they leave to the lazy group only grows when they give characters back; so
  the line matches exactly when the greedy reading does.
\<close>

definition match_line :: "jstr \<Rightarrow> (jstr \<times> jstr) option" where
  "match_line line =
     (case line of
        [] \<Rightarrow> None
      | c # rest \<Rightarrow>
          (let w = takeWhile is_word rest;
               r1 = dropWhile is_word rest;
               apostrophe = (case r1 of [] \<Rightarrow> False | q # qs \<Rightarrow> q = 39);
               r2 = (if apostrophe then drop 1 r1 else r1);
               r3 = dropWhile is_space r2
           in if c \<noteq> 91 \<or> w = [] \<or> r3 = [] \<or> last r3 \<noteq> 93
                 \<or> list_ex is_line_terminator (butlast r3)
              then None
              else Some (w @ (if apostrophe then [39] else []), butlast r3)))"

definition parse_line :: "jstr \<Rightarrow> 'n instruction option" where
  "parse_line line =
     (if startsWith line [35] then None
      else (case match_line line of
              None \<Rightarrow> None
            | Some (glyph, argsStr) \<Rightarrow> Some (Glyph glyph (nonempty (split_on is_space argsStr)))))"

definition parse :: "'n jsval \<Rightarrow> 'n instruction list" where
  "parse code =
     (case code of
        JStr s \<Rightarrow> List.map_filter parse_line (nonempty (map trim (split_on (\<lambda>c. c = 10) s)))
      | _ \<Rightarrow> [Mock code])"

subsection \<open>The glyphs that call nothing\<close>

definition gPop :: "jstr list \<Rightarrow> 'n kuhul_vm \<Rightarrow> 'n kuhul_vm" where
  "gPop args vm =
     (case args of
        [] \<Rightarrow> vm
      | funcName # _ \<Rightarrow>
          if funcName \<noteq> []
          then vm\<lparr>currentFunction := Some funcName,
                  functionsMap := (if funcName \<in> set (functionsMap vm) then functionsMap vm
                                else functionsMap vm @ [funcName])\<rparr>
          else vm)"

text \<open>\<open>gWo\<close> throws when \<open>JSON.parse\<close> does; the engine is then as it was.\<close>

definition gWo :: "'n builtins \<Rightarrow> jstr list \<Rightarrow> 'n kuhul_vm \<Rightarrow> js_error + 'n kuhul_vm" where
  "gWo env args vm =
     (let v = join [32] args in
      if quoted v then Inr (push (JStr (slice_1_m1 v)) vm)
      else if v = js ''true'' \<or> v = js ''false'' then Inr (push (JBool (v = js ''true'')) vm)
      else if \<not> isNaN env v then Inr (push (JNum (parseFloat env v)) vm)
      else if startsWith v [123] \<or> startsWith v [91]
      then (case JSON_parse env v of None \<Rightarrow> Inl SyntaxError | Some parsed \<Rightarrow> Inr (push parsed vm))
      else Inr (push (JStr v) vm))"

definition gChen :: "jstr list \<Rightarrow> 'n kuhul_vm \<Rightarrow> 'n kuhul_vm" where
  "gChen args vm =
     (let (v, vm1) = pop vm in
      case args of
        [] \<Rightarrow> push v vm1
      | varName # _ \<Rightarrow>
          if varName \<noteq> [] then vm1\<lparr>variables := map_set (variables vm1) varName v\<rparr>
          else push v vm1)"

definition gYax :: "jstr list \<Rightarrow> 'n kuhul_vm \<Rightarrow> 'n kuhul_vm" where
  "gYax args vm =
     (let found = (case args of [] \<Rightarrow> JUndef
                   | varName # _ \<Rightarrow> (case map_of (variables vm) varName of Some v \<Rightarrow> v | None \<Rightarrow> JUndef))
      in case found of
           JUndef \<Rightarrow>
             push JNull
               (vm\<lparr>warnings := warnings vm @
                    [js ''[K'' @ [39] @ js ''uhul] Variable not found: ''
                       @ (case args of [] \<Rightarrow> js ''undefined'' | varName # _ \<Rightarrow> varName)]\<rparr>)
         | _ \<Rightarrow> push found vm)"

definition gKayab :: "jstr list \<Rightarrow> 'n kuhul_vm \<Rightarrow> 'n kuhul_vm" where
  "gKayab args vm = vm\<lparr>loopContext := Loop (case args of [] \<Rightarrow> None | loopName # _ \<Rightarrow> Some loopName)\<rparr>"

definition gKumku :: "jstr list \<Rightarrow> 'n kuhul_vm \<Rightarrow> 'n kuhul_vm" where
  "gKumku args vm = vm\<lparr>loopContext := Loop_null\<rparr>"

definition gXul :: "jstr list \<Rightarrow> 'n kuhul_vm \<Rightarrow> 'n kuhul_vm" where
  "gXul args vm = vm\<lparr>halted := True\<rparr>"

subsection \<open>execute, executeInstruction and gSek\<close>

text \<open>
  A loop over a list that stops when \<open>stop\<close> holds of the state or the body throws.
  The result is the exception, if any, and the state reached.
\<close>

fun for_break :: "('s \<Rightarrow> bool) \<Rightarrow> ('a \<Rightarrow> 's \<Rightarrow> js_error option \<times> 's) \<Rightarrow> 'a list \<Rightarrow> 's \<Rightarrow> js_error option \<times> 's" where
  "for_break stop body [] s = (None, s)"
| "for_break stop body (x # xs) s =
     (if stop s then (None, s)
      else (case body x s of
              (Some e, s') \<Rightarrow> (Some e, s')
            | (None, s') \<Rightarrow> for_break stop body xs s'))"

lemma for_break_cong [fundef_cong]:
  "xs = ys \<Longrightarrow> s = t \<Longrightarrow> stop = stop' \<Longrightarrow> (\<And>x u. x \<in> set ys \<Longrightarrow> body x u = body' x u)
   \<Longrightarrow> for_break stop body xs s = for_break stop' body' ys t"
  by (induction ys arbitrary: xs s t) (auto split: prod.splits option.splits)

text \<open>\<open>args[i]\<close>\<close>

definition arg_at :: "'n jsval list \<Rightarrow> nat \<Rightarrow> 'n jsval" where
  "arg_at args i = (if i < length args then args ! i else JUndef)"

text \<open>
  \<open>obj?.[key]\<close> as \<open>gSek\<close> uses it. Its key is \<open>args[1]\<close> of an argument list
  whose join is \<open>get\<close>; such a list has one element (\<open>join_one\<close> below), so the key
  is \<open>undefined\<close> and the property read is the one named \<open>undefined\<close>, which only
  an object can have.
\<close>

definition opt_member :: "'n jsval \<Rightarrow> 'n jsval \<Rightarrow> js_error + 'n jsval" where
  "opt_member obj key =
     (case key of
        JUndef \<Rightarrow>
          (case obj of
             JObj kvs \<Rightarrow> Inr (case map_of kvs (js ''undefined'') of Some v \<Rightarrow> v | None \<Rightarrow> JUndef)
           | _ \<Rightarrow> Inr JUndef)
      | _ \<Rightarrow> if is_nullish obj then Inr JUndef else Inl Unmodelled)"

text \<open>
  How deep an instruction can call: a \<open>Sek\<close> whose operation is \<open>for_each\<close> runs
  \<open>execute(undefined, ...)\<close>, whose mock instruction can at most run
  \<open>execute('', ...)\<close>, which has no instruction.
\<close>

definition sek_rank :: "'n builtins \<Rightarrow> 'n jsval list \<Rightarrow> nat" where
  "sek_rank env args =
     (case join_values env [32] args of
        None \<Rightarrow> 0
      | Some operation \<Rightarrow> if operation = js ''for_each'' \<or> operation = js ''forEach'' then 2 else 1)"

definition inst_rank :: "'n builtins \<Rightarrow> 'n instruction \<Rightarrow> nat" where
  "inst_rank env inst =
     (case inst of
        Mock code \<Rightarrow> sek_rank env [code]
      | Glyph g args \<Rightarrow> if g = js ''Sek'' then sek_rank env (map JStr args) else 0)"

definition code_rank :: "'n builtins \<Rightarrow> 'n jsval \<Rightarrow> nat" where
  "code_rank env code = fold max (map (inst_rank env) (parse code)) 0"

text \<open>
  What the termination proof needs: a joined argument list without a blank has at
  most one element (so \<open>args[1]\<close> of a \<open>for_each\<close> is \<open>undefined\<close>), and the
  rank of a program bounds the rank of its instructions.
\<close>

lemma those_length: "those xs = Some ys \<Longrightarrow> length ys = length xs"
  by (induction xs arbitrary: ys) (auto split: option.splits)

lemma join_values_one:
  assumes "join_values env [32] args = Some operation" and "32 \<notin> set operation"
  shows "length args \<le> 1"
proof (rule ccontr)
  assume "\<not> length args \<le> 1"
  then obtain a b rest where args: "args = a # b # rest"
    by (cases args; cases "tl args") auto
  from assms(1) obtain ys where ys: "those (map (\<lambda>x. if is_nullish x then Some [] else js_String env x) args) = Some ys"
    and op: "operation = join [32] ys"
    by (auto simp: join_values_def)
  have "length ys = length args" using those_length[OF ys] by simp
  then obtain sa sb srest where "ys = sa # sb # srest"
    using args by (cases ys; cases "tl ys") auto
  then have "32 \<in> set operation" using op by simp
  then show False using assms(2) by simp
qed

lemma arg_at_1_undef:
  "join_values env [32] args = Some operation \<Longrightarrow> 32 \<notin> set operation \<Longrightarrow> arg_at args 1 = JUndef"
  using join_values_one[of env args operation] by (auto simp: arg_at_def)

lemma code_rank_undef: "code_rank env JUndef = 1"
  by (simp add: code_rank_def parse_def inst_rank_def sek_rank_def join_values_def is_nullish_def js_def)

lemma code_rank_empty: "code_rank env (JStr []) = 0"
  by (simp add: code_rank_def parse_def nonempty_def trim_def List.map_filter_def)

lemma fold_max_ge: "x \<in> set xs \<Longrightarrow> (x::nat) \<le> fold max xs a"
proof (induction xs arbitrary: a)
  case Nil then show ?case by simp
next
  case (Cons y ys)
  have base: "\<And>b. b \<le> fold max ys b" 
  proof -
    fix b show "b \<le> fold max ys b" by (induction ys arbitrary: b) (auto intro: order_trans[OF max.cobounded2])
  qed
  show ?case
  proof (cases "x = y")
    case True
    then show ?thesis using base[of "max y a"] by simp
  next
    case False
    then show ?thesis using Cons by auto
  qed
qed

lemma inst_rank_le: "inst \<in> set (parse code) \<Longrightarrow> inst_rank env inst \<le> code_rank env code"
  by (simp add: code_rank_def fold_max_ge)

function execute_body :: "'n builtins \<Rightarrow> 'n jsval \<Rightarrow> (jstr \<times> 'n jsval) list \<Rightarrow> 'n kuhul_vm \<Rightarrow> js_error option \<times> 'n kuhul_vm"
  and executeInstruction :: "'n builtins \<Rightarrow> 'n instruction \<Rightarrow> 'n kuhul_vm \<Rightarrow> js_error option \<times> 'n kuhul_vm"
  and gSek :: "'n builtins \<Rightarrow> 'n jsval list \<Rightarrow> 'n kuhul_vm \<Rightarrow> js_error option \<times> 'n kuhul_vm"
where
  "execute_body env code context vm =
     for_break halted (\<lambda>inst. executeInstruction env inst) (parse code)
       (vm\<lparr>variables := fold (\<lambda>(key, v) vars. map_set vars key v) context (variables vm)\<rparr>)"
| "executeInstruction env inst vm0 =
     (let vm = vm0\<lparr>dispatched := Suc (dispatched vm0)\<rparr> in
      case inst of
        Mock code \<Rightarrow> gSek env [code] vm
      | Glyph g args \<Rightarrow>
          if g = js ''Pop'' then (None, gPop args vm)
          else if g = js ''Wo'' then (case gWo env args vm of Inl e \<Rightarrow> (Some e, vm) | Inr vm' \<Rightarrow> (None, vm'))
          else if g = js ''Ch'' @ [39] @ js ''en'' then (None, gChen args vm)
          else if g = js ''Yax'' then (None, gYax args vm)
          else if g = js ''Sek'' then gSek env (map JStr args) vm
          else if g = js ''K'' @ [39] @ js ''ayab'' @ [39] then (None, gKayab args vm)
          else if g = js ''Kumk'' @ [39] @ js ''u'' then (None, gKumku args vm)
          else if g = js ''Xul'' then (None, gXul args vm)
          else if g = js ''constructor'' \<or> g = js ''toString'' then (None, vm)
          else if proto_member g then (Some TypeError, vm)
          else (None, vm\<lparr>warnings := warnings vm @ [js ''[K'' @ [39] @ js ''uhul] Unknown glyph: '' @ g]\<rparr>))"
| "gSek env args vm =
     (case join_values env [32] args of
        None \<Rightarrow> (Some TypeError, vm)
      | Some operation \<Rightarrow>
          if quoted operation then (None, push (JStr (slice_1_m1 operation)) vm)
          else if operation = js ''get'' then
            (let key = arg_at args 1; (obj, vm1) = pop vm in
             case opt_member obj key of
               Inl e \<Rightarrow> (Some e, vm1)
             | Inr v \<Rightarrow> (None, push (js_or env v JNull) vm1))
          else if operation = js ''for_each'' \<or> operation = js ''forEach'' then
            (let fn = arg_at args 1; (arr, vm1) = pop vm in
             case arr of
               JArr items \<Rightarrow>
                 for_break (\<lambda>_. False)
                   (\<lambda>item vm2. execute_body env fn
                       (fromEntries (map_set (variables vm2) (js ''item'') item))
                       (vm2\<lparr>variables := map_set (variables vm2) (js ''item'') item\<rparr>))
                   items vm1
             | _ \<Rightarrow> (None, vm1))
          else if operation \<in> set [js ''scx_decompress'', js ''xjson_parse'', js ''xj_compile_view'',
                                   js ''register_virtual_api'', js ''start_virtual_server''] then
            (let (input, vm1) = pop vm in (None, push input vm1))
          else if operation \<in> set [js ''process'', js ''process_data'', js ''send_response''] then
            (let (data, vm1) = pop vm in
             (None, push (JObj [(js ''processed'', JBool True), (js ''data'', data)]) vm1))
          else if operation \<in> set (functionsMap vm) then
            execute_body env (JStr (join [10] [])) (fromEntries (variables vm)) vm
          else (None, push (JObj [(js ''operation'', JStr operation), (js ''executed'', JBool True)]) vm))"
  by pat_completeness auto

termination
  apply (relation "measure (\<lambda>x. case x of
            Inl (env, code, context, vm) \<Rightarrow> 3 * code_rank env code + 2
          | Inr (Inl (env, inst, vm)) \<Rightarrow> 3 * inst_rank env inst + 1
          | Inr (Inr (env, args, vm)) \<Rightarrow> 3 * sek_rank env args)")
      apply simp
  subgoal for env code ctx vm inst u
    using inst_rank_le[of inst code env] by simp
  subgoal by (simp add: inst_rank_def)
  subgoal by (simp add: inst_rank_def)
  subgoal for env args vm operation fn p obj vm1 items item vm2
    using arg_at_1_undef[of env args operation]
    by (auto simp: sek_rank_def code_rank_undef js_def)
  subgoal by (simp add: sek_rank_def code_rank_empty)
  done

declare execute_body.simps [simp del] executeInstruction.simps [simp del] gSek.simps [simp del]

text \<open>
  \<open>execute\<close>: the engine's run, then the value returned, the top of the stack or
  else the variables as an object. An exception leaves the engine as it was when
  thrown.
\<close>

definition execute :: "'n builtins \<Rightarrow> 'n jsval \<Rightarrow> (jstr \<times> 'n jsval) list \<Rightarrow> 'n kuhul_vm \<Rightarrow> (js_error + 'n jsval) \<times> 'n kuhul_vm" where
  "execute env code context vm =
     (case execute_body env code context vm of
        (Some e, vm') \<Rightarrow> (Inl e, vm')
      | (None, vm') \<Rightarrow>
          (Inr (if stack vm' \<noteq> [] then last (stack vm') else JObj (fromEntries (variables vm'))), vm'))"


section \<open>KLH: the hive orchestrator (server/core/hive-orchestrator.js)\<close>

text \<open>
  A shard instance, a registry entry and the hive. The maps of the hive are keyed by
  the shard id, which is whatever truthy value the definition gives; the model
  compares ids structurally. \<open>state\<close> is the field \<open>shard_state\<close>.
\<close>

record 'n shard =
  shard_id :: "'n jsval"
  port :: "'n jsval"
  runtime :: "'n jsval"
  api :: "'n jsval"
  view :: "'n jsval"
  handlers :: "(jstr \<times> 'n jsval) list"
  shard_state :: "'n jsval"
  shard_vm :: "'n kuhul_vm option"
  created :: 'n

record 'n registry_entry =
  reg_id :: "'n jsval"
  reg_port :: "'n jsval"
  endpoints :: "('n jsval \<times> 'n jsval) list"

record 'n hive =
  hive_id :: "'n jsval"
  shards :: "('n jsval \<times> 'n shard) list"
  mesh_protocol :: "'n jsval"
  mesh_ports :: "('n jsval \<times> 'n jsval) list"
  registry :: "('n jsval \<times> 'n registry_entry) list"
  booted :: bool

text \<open>The constructor; \<open>uuid\<close> is what \<open>randomUUID()\<close> returns.\<close>

definition HiveOrchestrator_new :: "jstr \<Rightarrow> 'n hive" where
  "HiveOrchestrator_new uuid =
     \<lparr>hive_id = JStr uuid, shards = [], mesh_protocol = JStr (js ''virtual-rest''),
      mesh_ports = [], registry = [], booted = False\<rparr>"

text \<open>\<open>XJSONParser.parse\<close>\<close>

definition xjson_parse :: "'n builtins \<Rightarrow> 'n jsval \<Rightarrow> js_error + 'n jsval" where
  "xjson_parse env input =
     (case input of
        JNull \<Rightarrow> Inr (xjson_normalize input)
      | JArr xs \<Rightarrow> Inr (xjson_normalize input)
      | JObj kvs \<Rightarrow> Inr (xjson_normalize input)
      | JShard s \<Rightarrow> Inr (xjson_normalize input)
      | _ \<Rightarrow> (case js_String env input of
                None \<Rightarrow> Inl TypeError
              | Some s \<Rightarrow> (case JSON_parse env s of
                             None \<Rightarrow> Inl XJSON_parse_error
                           | Some obj \<Rightarrow> Inr (xjson_normalize obj))))"

text \<open>\<open>v.name || v['#name']\<close>, with \<open>#\<close> the prefix character.\<close>

definition field_or_prefixed :: "'n builtins \<Rightarrow> 'n jsval \<Rightarrow> string \<Rightarrow> js_error + 'n jsval" where
  "field_or_prefixed env v name =
     (case get_field v (js name) of
        Inl e \<Rightarrow> Inl e
      | Inr a \<Rightarrow> (case get_field v (xjson_prefix @ js name) of
                    Inl e \<Rightarrow> Inl e
                  | Inr b \<Rightarrow> Inr (js_or env a b)))"

text \<open>
  One turn of the loop that compiles the handlers: the key \<open>`${method}:${path}`\<close>
  and the handler of a route.
\<close>

definition route_binding :: "'n builtins \<Rightarrow> 'n jsval \<Rightarrow> js_error + (jstr \<times> 'n jsval)" where
  "route_binding env route =
     (case field_or_prefixed env route ''path'' of
        Inl e \<Rightarrow> Inl e
      | Inr path \<Rightarrow>
     (case field_or_prefixed env route ''method'' of
        Inl e \<Rightarrow> Inl e
      | Inr m \<Rightarrow>
     (case field_or_prefixed env route ''handler'' of
        Inl e \<Rightarrow> Inl e
      | Inr handler \<Rightarrow>
     (case js_String env (js_or env m (JStr (js ''GET''))) of
        None \<Rightarrow> Inl TypeError
      | Some ms \<Rightarrow>
     (case js_String env path of
        None \<Rightarrow> Inl TypeError
      | Some ps \<Rightarrow> Inr (ms @ js '':'' @ ps, handler))))))"

fun compile_handlers :: "'n builtins \<Rightarrow> 'n jsval list \<Rightarrow> (jstr \<times> 'n jsval) list \<Rightarrow> js_error + (jstr \<times> 'n jsval) list" where
  "compile_handlers env [] hs = Inr hs"
| "compile_handlers env (route # routes) hs =
     (case route_binding env route of
        Inl e \<Rightarrow> Inl e
      | Inr (key, handler) \<Rightarrow> compile_handlers env routes (map_set hs key handler))"

text \<open>
  What \<open>for (const route of api)\<close> iterates: the elements of an array, the
  characters of a string (each a string again), nothing else.
\<close>

definition iterate :: "'n jsval \<Rightarrow> js_error + 'n jsval list" where
  "iterate v =
     (case v of
        JArr xs \<Rightarrow> Inr xs
      | JStr s \<Rightarrow> Inr (map (\<lambda>c. JStr [c]) s)
      | _ \<Rightarrow> Inl TypeError)"

text \<open>The summary of a route in the registry: \<open>r.method || r['#method']\<close> and the path.\<close>

definition endpoint :: "'n builtins \<Rightarrow> 'n jsval \<Rightarrow> js_error + ('n jsval \<times> 'n jsval)" where
  "endpoint env r =
     (case field_or_prefixed env r ''method'' of
        Inl e \<Rightarrow> Inl e
      | Inr m \<Rightarrow> (case field_or_prefixed env r ''path'' of
                    Inl e \<Rightarrow> Inl e
                  | Inr p \<Rightarrow> Inr (m, p)))"

fun map_endpoints :: "'n builtins \<Rightarrow> 'n jsval list \<Rightarrow> js_error + ('n jsval \<times> 'n jsval) list" where
  "map_endpoints env [] = Inr []"
| "map_endpoints env (r # rs) =
     (case endpoint env r of
        Inl e \<Rightarrow> Inl e
      | Inr ep \<Rightarrow> (case map_endpoints env rs of Inl e \<Rightarrow> Inl e | Inr eps \<Rightarrow> Inr (ep # eps)))"

text \<open>
  \<open>createShard\<close>, in the three steps of the source. \<open>uuid\<close> and \<open>now\<close> are
  what \<open>randomUUID()\<close> and \<open>Date.now()\<close> return.

  First the definition is read: a string that holds the separator is decoded, and a
  string (still) is parsed as XJSON.
\<close>

definition read_definition :: "'n builtins \<Rightarrow> 'n jsval \<Rightarrow> js_error + 'n jsval" where
  "read_definition env shardDef =
     (case (case shardDef of
              JStr s \<Rightarrow> if separator \<in> set s then decode env s else Inr shardDef
            | _ \<Rightarrow> Inr shardDef) of
        Inl e \<Rightarrow> Inl e
      | Inr def \<Rightarrow> (case def of JStr s \<Rightarrow> xjson_parse env def | _ \<Rightarrow> Inr def))"

text \<open>Then the instance is built and its handlers are compiled.\<close>

definition shard_instance :: "'n builtins \<Rightarrow> jstr \<Rightarrow> 'n \<Rightarrow> 'n jsval \<Rightarrow> js_error + 'n shard" where
  "shard_instance env uuid now shard =
     (case field_or_prefixed env shard ''id'' of Inl e \<Rightarrow> Inl e | Inr id0 \<Rightarrow>
     (case field_or_prefixed env shard ''port'' of Inl e \<Rightarrow> Inl e | Inr port0 \<Rightarrow>
     (case field_or_prefixed env shard ''runtime'' of Inl e \<Rightarrow> Inl e | Inr runtime0 \<Rightarrow>
     (case field_or_prefixed env shard ''api'' of Inl e \<Rightarrow> Inl e | Inr api0 \<Rightarrow>
     (case field_or_prefixed env shard ''view'' of Inl e \<Rightarrow> Inl e | Inr view0 \<Rightarrow>
     (case iterate (js_or env api0 (JArr [])) of Inl e \<Rightarrow> Inl e | Inr routes \<Rightarrow>
     (case compile_handlers env routes [] of Inl e \<Rightarrow> Inl e | Inr hs \<Rightarrow>
        Inr \<lparr>shard_id = js_or env id0 (JStr uuid),
             port = js_or env port0 (JNum (Number_of_int env 3001)),
             runtime = js_or env runtime0 (JStr (js ''kuhul'')),
             api = js_or env api0 (JArr []),
             view = js_or env view0 JNull,
             handlers = hs,
             shard_state = JObj [],
             shard_vm = (if js_or env runtime0 (JStr (js ''kuhul'')) = JStr (js ''kuhul'')
                   then Some KuhulVM_new else None),
             created = now\<rparr>)))))))"

text \<open>
  Last the shard is registered. The shard map is written first; the registry entry
  is built after that, by \<open>api.map\<close>, which only an array has. The result is the
  instance or the exception, and the hive as the call leaves it.
\<close>

definition createShard :: "'n builtins \<Rightarrow> jstr \<Rightarrow> 'n \<Rightarrow> 'n hive \<Rightarrow> 'n jsval \<Rightarrow> (js_error + 'n shard) \<times> 'n hive" where
  "createShard env uuid now hive shardDef =
     (case read_definition env shardDef of
        Inl e \<Rightarrow> (Inl e, hive)
      | Inr shard \<Rightarrow>
          (case shard_instance env uuid now shard of
             Inl e \<Rightarrow> (Inl e, hive)
           | Inr shardInstance \<Rightarrow>
               (let hive1 = hive\<lparr>shards := map_set (shards hive) (shard_id shardInstance) shardInstance\<rparr>
                in case (case api shardInstance of
                           JArr rs \<Rightarrow> map_endpoints env rs
                         | _ \<Rightarrow> Inl TypeError) of
                     Inl e \<Rightarrow> (Inl e, hive1)
                   | Inr eps \<Rightarrow>
                       (Inr shardInstance,
                        hive1\<lparr>registry := map_set (registry hive1) (shard_id shardInstance)
                                   \<lparr>reg_id = shard_id shardInstance,
                                    reg_port = port shardInstance,
                                    endpoints = eps\<rparr>\<rparr>))))"

text \<open>
  \<open>routeToShard\<close>, first half: the shard and the handler are resolved, or an
  Error is thrown. A template literal converts its values to strings, which can
  itself throw.
\<close>

definition resolve_handler :: "'n builtins \<Rightarrow> 'n hive \<Rightarrow> 'n jsval \<Rightarrow> 'n jsval \<Rightarrow> 'n jsval \<Rightarrow> js_error + ('n shard \<times> 'n jsval)" where
  "resolve_handler env hive shardId method path =
     (case map_of (shards hive) shardId of
        None \<Rightarrow>
          (case js_String env shardId of
             None \<Rightarrow> Inl TypeError
           | Some sid \<Rightarrow> Inl (Error (js ''Shard not found: '' @ sid)))
      | Some shard \<Rightarrow>
          (case js_String env method of
             None \<Rightarrow> Inl TypeError
           | Some ms \<Rightarrow>
               (case js_String env path of
                  None \<Rightarrow> Inl TypeError
                | Some ps \<Rightarrow>
                    (let handlerKey = ms @ js '':'' @ ps;
                         handler = (case map_of (handlers shard) handlerKey of
                                      Some h \<Rightarrow> h
                                    | None \<Rightarrow> JUndef)
                     in if truthy env handler then Inr (shard, handler)
                        else (case js_String env shardId of
                                None \<Rightarrow> Inl TypeError
                              | Some sid \<Rightarrow>
                                  Inl (Error (js ''No handler for '' @ handlerKey
                                                @ js '' in shard '' @ sid)))))))"

text \<open>The context \<open>{ shard, data, method, path }\<close> that the engine is given.\<close>

definition handler_context :: "'n shard \<Rightarrow> 'n jsval \<Rightarrow> 'n jsval \<Rightarrow> 'n jsval \<Rightarrow> (jstr \<times> 'n jsval) list" where
  "handler_context shard data method path =
     [(js ''shard'', JShard (shard_id shard)), (js ''data'', data),
      (js ''method'', method), (js ''path'', path)]"

text \<open>
  Second half: the handler runs in the engine of the shard, the one
  \<open>createShard\<close> made. The run mutates that engine, so the hive returned holds it
  as the run left it. A shard without an engine answers with a fixed payload.
\<close>

definition routeToShard :: "'n builtins \<Rightarrow> 'n hive \<Rightarrow> 'n jsval \<Rightarrow> 'n jsval \<Rightarrow> 'n jsval \<Rightarrow> 'n jsval \<Rightarrow> (js_error + 'n jsval) \<times> 'n hive" where
  "routeToShard env hive shardId method path data =
     (case resolve_handler env hive shardId method path of
        Inl e \<Rightarrow> (Inl e, hive)
      | Inr (shard, handler) \<Rightarrow>
          (case shard_vm shard of
             Some engine \<Rightarrow>
               (case execute env handler (handler_context shard data method path) engine of
                  (r, engine') \<Rightarrow>
                    (r, hive\<lparr>shards := map_set (shards hive) shardId (shard\<lparr>shard_vm := Some engine'\<rparr>)\<rparr>))
           | None \<Rightarrow>
               (case js_String env handler of
                  None \<Rightarrow> (Inl TypeError, hive)
                | Some hs \<Rightarrow>
                    (Inr (JObj [(js ''status'', JNum (Number_of_int env 200)),
                                (js ''data'',
                                 JObj [(js ''message'', JStr (js ''Handler '' @ hs @ js '' executed'')),
                                       (js ''shard'', shardId)])]),
                     hive))))"


section \<open>An instance of the built-in functions\<close>

text \<open>
  The theorems hold for every choice of the built-in functions. To run the model on
  concrete inputs one choice is needed; this one has the integers as numbers. It
  agrees with the language on the strings the examples of this theory give it:
  \<open>isNaN\<close> and \<open>parseFloat\<close> are applied only to decimal numerals without sign
  or leading zero and to strings that no reading makes a number, and
  \<open>JSON.parse\<close> only to texts that are not JSON, which it rejects.
\<close>

definition int_builtins :: "int builtins" where
  "int_builtins =
     \<lparr>Number_toString = (\<lambda>n. if n < 0 then js ''-'' @ show_dec (- n) else show_dec n),
      Number_falsy = (\<lambda>n. n = 0),
      isNaN = (\<lambda>s. show_dec (dec_val s) \<noteq> s),
      parseFloat = dec_val,
      JSON_parse = (\<lambda>s. None),
      Number_of_int = (\<lambda>i. i)\<rparr>"


section \<open>Sequences of calls and example inputs\<close>

text \<open>The engine a hive holds for a shard id, and a sequence of \<open>routeToShard\<close> calls.\<close>

definition engine_of :: "'n hive \<Rightarrow> 'n jsval \<Rightarrow> 'n kuhul_vm option" where
  "engine_of hive sid = (case map_of (shards hive) sid of Some s \<Rightarrow> shard_vm s | None \<Rightarrow> None)"

fun route_all :: "'n builtins \<Rightarrow> 'n hive \<Rightarrow> ('n jsval \<times> 'n jsval \<times> 'n jsval \<times> 'n jsval) list \<Rightarrow> 'n hive" where
  "route_all env hive [] = hive"
| "route_all env hive ((shardId, method, path, data) # calls) =
     route_all env (snd (routeToShard env hive shardId method path data)) calls"

text \<open>The loop of \<open>execute\<close> on its own.\<close>

definition run_instructions :: "'n builtins \<Rightarrow> 'n instruction list \<Rightarrow> 'n kuhul_vm \<Rightarrow> js_error option \<times> 'n kuhul_vm" where
  "run_instructions env insts vm = for_break halted (executeInstruction env) insts vm"

text \<open>The names of the glyph table, and the diagnostic for a name that is not in it.\<close>

definition glyph_names :: "jstr list" where
  "glyph_names =
     [js ''Pop'', js ''Wo'', js ''Ch'' @ [39] @ js ''en'', js ''Yax'', js ''Sek'',
      js ''K'' @ [39] @ js ''ayab'' @ [39], js ''Kumk'' @ [39] @ js ''u'', js ''Xul'']"

definition unknown_glyph_warning :: "jstr \<Rightarrow> jstr" where
  "unknown_glyph_warning g = js ''[K'' @ [39] @ js ''uhul] Unknown glyph: '' @ g"

text \<open>
  The shard of the specification's first scenario, with two more routes: one whose
  handler is only a comment, one whose handler halts the engine.
\<close>

definition example_routes :: "int jsval" where
  "example_routes =
     JArr [JObj [(js ''path'', JStr (js ''/list'')), (js ''method'', JStr (js ''GET'')),
                 (js ''handler'', JStr (js ''[Wo \"hello\"]''))],
           JObj [(js ''path'', JStr (js ''/idle'')), (js ''method'', JStr (js ''GET'')),
                 (js ''handler'', JStr (js ''# nothing to do''))],
           JObj [(js ''path'', JStr (js ''/stop'')), (js ''method'', JStr (js ''GET'')),
                 (js ''handler'', JStr (js ''[Xul]''))]]"

definition example_shard :: "int jsval" where
  "example_shard =
     JObj [(js ''id'', JStr (js ''users'')), (js ''port'', JNum 3001), (js ''api'', example_routes)]"

definition example_hive :: "int hive" where
  "example_hive =
     snd (createShard int_builtins (js ''generated-id'') 0 (HiveOrchestrator_new (js ''hive-0'')) example_shard)"

text \<open>The instance that \<open>createShard\<close> makes of it.\<close>

definition example_users :: "int shard" where
  "example_users =
     \<lparr>shard_id = JStr (js ''users''), port = JNum 3001, runtime = JStr (js ''kuhul''),
      api = example_routes, view = JNull,
      handlers = [(js ''GET:/list'', JStr (js ''[Wo \"hello\"]'')),
                  (js ''GET:/idle'', JStr (js ''# nothing to do'')),
                  (js ''GET:/stop'', JStr (js ''[Xul]''))],
      shard_state = JObj [], shard_vm = Some KuhulVM_new, created = 0\<rparr>"

text \<open>The hive after a call of the route that halts, and the engine that call leaves.\<close>

definition stopped_hive :: "int hive" where
  "stopped_hive = snd (routeToShard int_builtins example_hive (JStr (js ''users'')) (JStr (js ''GET'')) (JStr (js ''/stop'')) JNull)"

definition stopped_engine :: "int kuhul_vm" where
  "stopped_engine =
     \<lparr>stack = [],
      variables = [(js ''shard'', JShard (JStr (js ''users''))), (js ''data'', JNull),
                   (js ''method'', JStr (js ''GET'')), (js ''path'', JStr (js ''/stop''))],
      functionsMap = [], currentFunction = None, loopContext = Loop_undefined,
      halted = True, warnings = [], dispatched = 1\<rparr>"

text \<open>
  A shard that declares the route \<open>GET /a\<close> twice, the second time with a prefixed
  key and the default method, and the instance that \<open>createShard\<close> makes of it.
\<close>

definition duplicate_routes_shard :: "int jsval" where
  "duplicate_routes_shard =
     JObj [(js ''id'', JStr (js ''dup'')),
           (js ''api'',
            JArr [JObj [(js ''path'', JStr (js ''/a'')), (js ''method'', JStr (js ''GET'')),
                        (js ''handler'', JStr (js ''[Wo 1]''))],
                  JObj [(xjson_prefix @ js ''path'', JStr (js ''/a'')),
                        (js ''handler'', JStr (js ''[Wo 2]''))]])]"

definition duplicate_routes_instance :: "int shard" where
  "duplicate_routes_instance =
     \<lparr>shard_id = JStr (js ''dup''), port = JNum 3001, runtime = JStr (js ''kuhul''),
      api = JArr [JObj [(js ''path'', JStr (js ''/a'')), (js ''method'', JStr (js ''GET'')),
                        (js ''handler'', JStr (js ''[Wo 1]''))],
                  JObj [(xjson_prefix @ js ''path'', JStr (js ''/a'')),
                        (js ''handler'', JStr (js ''[Wo 2]''))]],
      view = JNull, handlers = [(js ''GET:/a'', JStr (js ''[Wo 2]''))],
      shard_state = JObj [], shard_vm = Some KuhulVM_new, created = 0\<rparr>"




section \<open>Properties of the object model\<close>

lemma array_index_inj: "array_index a = Some i \<Longrightarrow> array_index b = Some i \<Longrightarrow> a = b"
  by (auto simp: array_index_def split: if_splits)

lemma map_upd_keys: "map (fst \<circ> (\<lambda>p. if fst p = k then (k, v) else p)) ob = map fst ob"
  by (induction ob) auto

lemma ins_index_set: "set (ins_index i e ps) = insert e (set ps)"
  by (induction ps) (auto split: option.splits)

lemma ins_index_distinct:
  "distinct (map fst ps) \<Longrightarrow> fst e \<notin> set (map fst ps) \<Longrightarrow> distinct (map fst (ins_index i e ps))"
  by (induction ps) (auto simp: ins_index_set split: option.splits)

lemma key_before_index_none: "array_index a = Some i \<Longrightarrow> array_index b = None \<Longrightarrow> key_before a b"
  by (simp add: key_before_def)

lemma ins_index_sorted:
  "sorted_wrt key_before (map fst ps) \<Longrightarrow> array_index k = Some i \<Longrightarrow> k \<notin> set (map fst ps)
   \<Longrightarrow> sorted_wrt key_before (map fst (ins_index i (k, v) ps))"
proof (induction ps)
  case Nil
  then show ?case by simp
next
  case (Cons p ps)
  show ?case
  proof (cases "array_index (fst p)")
    case None
    have "key_before k (fst p)" using None Cons.prems(2) by (simp add: key_before_def)
    moreover have "\<forall>y\<in>set (map fst ps). key_before k y"
      using Cons.prems(1,2) None by (auto simp: key_before_def split: option.splits)
    ultimately show ?thesis using None Cons.prems(1) by simp
  next
    case (Some j)
    show ?thesis
    proof (cases "j < i")
      case True
      have "key_before (fst p) k" using Some True Cons.prems(2) by (simp add: key_before_def)
      then show ?thesis using Some True Cons by (auto simp: ins_index_set)
    next
      case False
      have "j \<noteq> i" using array_index_inj[OF Some] Cons.prems(2,3) by auto
      then have ij: "i < j" using False by simp
      have "key_before k (fst p)" using Some ij Cons.prems(2) by (simp add: key_before_def)
      moreover have "\<forall>y\<in>set (map fst ps). key_before k y"
        using Cons.prems(1,2) Some ij by (auto simp: key_before_def split: option.splits)
      ultimately show ?thesis using Some False Cons.prems(1) by simp
    qed
  qed
qed

lemma entries_ok_put: "entries_ok ob \<Longrightarrow> entries_ok (obj_put ob k v)"
proof (cases "k \<in> set (map fst ob)")
  case True
  assume "entries_ok ob"
  then show ?thesis using True by (simp add: obj_put_def entries_ok_def map_upd_keys del: set_map)
next
  case False
  assume ok: "entries_ok ob"
  show ?thesis
  proof (cases "array_index k")
    case None
    have "\<forall>x\<in>set (map fst ob). key_before x k"
      using None by (auto simp: key_before_def split: option.splits)
    then show ?thesis using ok False None
      by (simp add: obj_put_def entries_ok_def sorted_wrt_append del: set_map)
  next
    case (Some i)
    then show ?thesis using ok False ins_index_sorted[of ob k i v] ins_index_distinct[of ob "(k, v)" i]
      by (simp add: obj_put_def entries_ok_def del: set_map)
  qed
qed

lemma obj_put_set: "set (obj_put ob k v) \<subseteq> insert (k, v) (set ob)"
  by (auto simp: obj_put_def ins_index_set split: option.splits if_splits)

lemma ins_index_snoc:
  "list_all (\<lambda>p. case array_index (fst p) of Some j \<Rightarrow> j < i | None \<Rightarrow> False) ps
   \<Longrightarrow> ins_index i e ps = ps @ [e]"
  by (induction ps) (auto split: option.splits)

lemma obj_put_snoc: "entries_ok (ob @ [(k, v)]) \<Longrightarrow> obj_put ob k v = ob @ [(k, v)]"
proof -
  assume ok: "entries_ok (ob @ [(k, v)])"
  then have notin: "k \<notin> set (map fst ob)" by (auto simp: entries_ok_def)
  have before: "\<forall>x\<in>set (map fst ob). key_before x k"
    using ok by (auto simp: entries_ok_def sorted_wrt_append)
  show ?thesis
  proof (cases "array_index k")
    case None
    then show ?thesis using notin by (simp add: obj_put_def del: set_map)
  next
    case (Some i)
    have "list_all (\<lambda>p. case array_index (fst p) of Some j \<Rightarrow> j < i | None \<Rightarrow> False) ob"
      using before Some by (auto simp: list_all_iff key_before_def split: option.splits)
    then show ?thesis using Some notin ins_index_snoc by (simp add: obj_put_def del: set_map)
  qed
qed

lemma entries_ok_butlast: "entries_ok (ob @ [e]) \<Longrightarrow> entries_ok ob"
  by (auto simp: entries_ok_def sorted_wrt_append)

lemma fold_put_id: "entries_ok r \<Longrightarrow> fold (\<lambda>(k, v) acc. obj_put acc k v) r [] = r"
proof (induction r rule: rev_induct)
  case Nil
  then show ?case by simp
next
  case (snoc x xs)
  obtain k v where x: "x = (k, v)" by (cases x)
  have "fold (\<lambda>(k, v) acc. obj_put acc k v) xs [] = xs"
    using snoc entries_ok_butlast by blast
  then show ?case using snoc.prems obj_put_snoc x by simp
qed


lemma cleanKey_idem: "\<not> startsWith (cleanKey k) xjson_prefix \<Longrightarrow> cleanKey (cleanKey k) = cleanKey k"
  by (simp add: cleanKey_def)


lemma normalize_fold_inv:
  assumes "\<forall>(k, v)\<in>set kvs. plain_key k \<and> xjson_normalize (xjson_normalize v) = xjson_normalize v"
    and "entries_ok acc"
    and "\<forall>(k, w)\<in>set acc. cleanKey k = k \<and> k \<noteq> js ''__proto__'' \<and> xjson_normalize w = w"
  shows "entries_ok (fold (\<lambda>(key, value) normalized. obj_assign normalized (cleanKey key) (xjson_normalize value)) kvs acc)
       \<and> (\<forall>(k, w)\<in>set (fold (\<lambda>(key, value) normalized. obj_assign normalized (cleanKey key) (xjson_normalize value)) kvs acc).
             cleanKey k = k \<and> k \<noteq> js ''__proto__'' \<and> xjson_normalize w = w)"
  using assms
proof (induction kvs arbitrary: acc)
  case Nil
  then show ?case by simp
next
  case (Cons p kvs)
  obtain k v where p: "p = (k, v)" by (cases p)
  let ?acc = "obj_assign acc (cleanKey k) (xjson_normalize v)"
  have pk: "plain_key k" and nv: "xjson_normalize (xjson_normalize v) = xjson_normalize v"
    using Cons.prems(1) p by auto
  have eq: "?acc = obj_put acc (cleanKey k) (xjson_normalize v)"
    using pk by (simp add: obj_assign_def plain_key_def)
  have ok: "entries_ok ?acc" using eq Cons.prems(2) entries_ok_put by simp
  have "\<forall>(k, w)\<in>set ?acc. cleanKey k = k \<and> k \<noteq> js ''__proto__'' \<and> xjson_normalize w = w"
    using obj_put_set[of acc "cleanKey k" "xjson_normalize v"] Cons.prems(3) pk nv eq cleanKey_idem[of k]
    by (auto simp: plain_key_def)
  then show ?case using Cons.IH[of ?acc] Cons.prems(1) ok p by simp
qed

lemma normalize_settled_fold:
  assumes "entries_ok r"
    and "\<forall>(k, w)\<in>set r. cleanKey k = k \<and> k \<noteq> js ''__proto__'' \<and> xjson_normalize w = w"
  shows "fold (\<lambda>(key, value) normalized. obj_assign normalized (cleanKey key) (xjson_normalize value)) r [] = r"
proof -
  have "fold (\<lambda>(key, value) normalized. obj_assign normalized (cleanKey key) (xjson_normalize value)) r []
      = fold (\<lambda>(k, v) acc. obj_put acc k v) r []"
    using assms(2) by (intro fold_cong) (auto simp: obj_assign_def)
  then show ?thesis using fold_put_id[OF assms(1)] by simp
qed


section \<open>Normalization (claim C7)\<close>

text \<open>
  Claim C7 as stated fails. Writing \<open>#\<close> for the prefix character, the tree
  \<open>{"##a": true}\<close> normalizes to \<open>{"#a": true}\<close>, which normalizes to
  \<open>{"a": true}\<close>.
\<close>

theorem normalize_twice_counterexample:
  "xjson_normalize (xjson_normalize (JObj [(xjson_prefix @ xjson_prefix @ js ''a'', JBool True)] :: int jsval))
   \<noteq> xjson_normalize (JObj [(xjson_prefix @ xjson_prefix @ js ''a'', JBool True)])"
  by code_simp

text \<open>
  Claim C7, as amended. The code strips one prefix character per call, so a key that
  carries it twice is cleaned again by a second call. For every tree of the definition
  format whose keys carry the prefix at most once (and are not \<open>__proto__\<close>),
  normalizing the normalized tree returns it unchanged.
\<close>

theorem normalize_idempotent: "single_prefixed x \<Longrightarrow> xjson_normalize (xjson_normalize x) = xjson_normalize x"
proof (induction x rule: xjson_normalize.induct)
  case (1 xs)
  then show ?case by (simp add: list_all_iff)
next
  case (2 kvs)
  let ?step = "\<lambda>(key, value) normalized. obj_assign normalized (cleanKey key) (xjson_normalize value)"
  have pre: "\<forall>(k, v)\<in>set kvs. plain_key k \<and> xjson_normalize (xjson_normalize v) = xjson_normalize v"
    using 2 by (auto simp: list_all_iff)
  have "entries_ok ([] :: (jstr \<times> 'a jsval) list)" by (simp add: entries_ok_def)
  then have inv: "entries_ok (fold ?step kvs [])
       \<and> (\<forall>(k, w)\<in>set (fold ?step kvs []). cleanKey k = k \<and> k \<noteq> js ''__proto__'' \<and> xjson_normalize w = w)"
    using normalize_fold_inv[OF pre, of "[]"] by simp
  show ?case using normalize_settled_fold[OF conjunct1[OF inv] conjunct2[OF inv]] by simp
qed simp_all

theorem normalize_idempotent_witness:
  "single_prefixed (JObj [(xjson_prefix @ js ''id'', JStr (js ''users'')), (js ''api'', JArr [JObj [(xjson_prefix @ js ''path'', JStr (js ''/list''))]])] :: int jsval)
   \<and> xjson_normalize (xjson_normalize (JObj [(xjson_prefix @ js ''id'', JStr (js ''users'')), (js ''api'', JArr [JObj [(xjson_prefix @ js ''path'', JStr (js ''/list''))]])] :: int jsval))
     = xjson_normalize (JObj [(xjson_prefix @ js ''id'', JStr (js ''users'')), (js ''api'', JArr [JObj [(xjson_prefix @ js ''path'', JStr (js ''/list''))]])])"
proof -
  have h: "single_prefixed (JObj [(xjson_prefix @ js ''id'', JStr (js ''users'')), (js ''api'', JArr [JObj [(xjson_prefix @ js ''path'', JStr (js ''/list''))]])] :: int jsval)"
    by code_simp
  show ?thesis using h normalize_idempotent[OF h] by simp
qed


section \<open>Properties of the engine and of routing\<close>

lemma for_break_stopped: "stop s \<Longrightarrow> for_break stop body xs s = (None, s)"
  by (cases xs) simp_all

lemma execute_body_halted:
  "halted vm \<Longrightarrow> execute_body env code ctx vm
     = (None, vm\<lparr>variables := fold (\<lambda>(key, v) vars. map_set vars key v) ctx (variables vm)\<rparr>)"
  by (simp add: execute_body.simps for_break_stopped)

lemma execute_halted:
  "halted vm \<Longrightarrow> halted (snd (execute env code ctx vm)) \<and> dispatched (snd (execute env code ctx vm)) = dispatched vm
     \<and> stack (snd (execute env code ctx vm)) = stack vm \<and> functionsMap (snd (execute env code ctx vm)) = functionsMap vm"
  by (simp add: execute_def execute_body_halted)

lemma map_of_upd:
  "map_of (map (\<lambda>p. if fst p = k then (k, v) else p) m) k'
     = (if k' = k then (if k \<in> fst ` set m then Some v else None) else map_of m k')"
  by (induction m) (auto simp: rev_image_eqI)

lemma map_of_map_set: "map_of (map_set m k v) k' = (if k' = k then Some v else map_of m k')"
proof (cases "k \<in> fst ` set m")
  case True
  then show ?thesis by (simp add: map_set_def map_of_upd)
next
  case False
  then have "map_of m k = None" by (simp add: map_of_eq_None_iff)
  then show ?thesis using False by (auto simp: map_set_def map_add_def split: option.splits)
qed

lemma resolve_handler_shard:
  "resolve_handler env hive shardId m p = Inr (shard, handler) \<Longrightarrow> map_of (shards hive) shardId = Some shard"
  by (auto simp: resolve_handler_def Let_def split: option.splits if_splits)

lemma routeToShard_cases:
  "(snd (routeToShard env hive shardId m p d) = hive)
   \<or> (\<exists>shard handler engine.
         map_of (shards hive) shardId = Some shard \<and> shard_vm shard = Some engine
         \<and> resolve_handler env hive shardId m p = Inr (shard, handler)
         \<and> routeToShard env hive shardId m p d
             = (fst (execute env handler (handler_context shard d m p) engine),
                hive\<lparr>shards := map_set (shards hive) shardId
                   (shard\<lparr>shard_vm := Some (snd (execute env handler (handler_context shard d m p) engine))\<rparr>)\<rparr>))"
proof (cases "resolve_handler env hive shardId m p")
  case (Inl e)
  then show ?thesis by (simp add: routeToShard_def)
next
  case (Inr sh)
  obtain shard handler where sh: "sh = (shard, handler)" by (cases sh)
  show ?thesis
  proof (cases "shard_vm shard")
    case None
    then show ?thesis using Inr sh by (simp add: routeToShard_def split: option.splits)
  next
    case (Some engine)
    then show ?thesis using Inr sh resolve_handler_shard[of env hive shardId m p shard handler]
      by (simp add: routeToShard_def split: prod.splits)
  qed
qed

lemma routeToShard_engine:
  assumes "engine_of hive sid = Some e" "halted e"
  shows "\<exists>e'. engine_of (snd (routeToShard env hive shardId m p d)) sid = Some e' \<and> halted e' \<and> dispatched e' = dispatched e"
  using routeToShard_cases[of env hive shardId m p d]
proof (elim disjE exE conjE)
  assume "snd (routeToShard env hive shardId m p d) = hive"
  then show ?thesis using assms by simp
next
  fix shard handler engine
  assume a: "map_of (shards hive) shardId = Some shard" "shard_vm shard = Some engine"
    and r: "routeToShard env hive shardId m p d
             = (fst (execute env handler (handler_context shard d m p) engine),
                hive\<lparr>shards := map_set (shards hive) shardId
                   (shard\<lparr>shard_vm := Some (snd (execute env handler (handler_context shard d m p) engine))\<rparr>)\<rparr>)"
  show ?thesis
  proof (cases "shardId = sid")
    case True
    then have "engine = e" using a assms(1) by (simp add: engine_of_def)
    then show ?thesis using True r execute_halted[OF assms(2), of env handler "handler_context shard d m p"]
      by (simp add: engine_of_def map_of_map_set)
  next
    case False
    then show ?thesis using r assms by (simp add: engine_of_def map_of_map_set)
  qed
qed

lemma example_hive_users: "map_of (shards example_hive) (JStr (js ''users'')) = Some example_users"
  by code_simp

lemma for_break_append:
  "for_break stop body (xs @ ys) s
     = (case for_break stop body xs s of
          (Some e, s') \<Rightarrow> (Some e, s')
        | (None, s') \<Rightarrow> for_break stop body ys s')"
proof (induction xs arbitrary: s)
  case Nil
  then show ?case by simp
next
  case (Cons x xs)
  then show ?case by (auto simp: for_break_stopped split: prod.splits option.splits)
qed

lemma executeInstruction_unknown:
  assumes "g \<notin> set glyph_names" "\<not> proto_member g"
  shows "executeInstruction env (Glyph g args) vm
       = (None, vm\<lparr>dispatched := Suc (dispatched vm), warnings := warnings vm @ [unknown_glyph_warning g]\<rparr>)"
  using assms
  by (simp add: executeInstruction.simps glyph_names_def proto_member_def unknown_glyph_warning_def Let_def)

lemma executeInstruction_Wo_plain:
  assumes "\<not> quoted (join [32] args)" "join [32] args \<noteq> js ''true''" "join [32] args \<noteq> js ''false''"
    "isNaN env (join [32] args)" "\<not> startsWith (join [32] args) [123]" "\<not> startsWith (join [32] args) [91]"
  shows "executeInstruction env (Glyph (js ''Wo'') args) vm
       = (None, push (JStr (join [32] args)) (vm\<lparr>dispatched := Suc (dispatched vm)\<rparr>))"
proof -
  have "js ''Wo'' \<noteq> js ''Pop''" by (simp add: js_def)
  then show ?thesis using assms
    by (simp add: executeInstruction.simps gWo_def Let_def)
qed

lemma resolve_handler_after:
  assumes "map_of (shards hive) sid = Some shard"
  shows "resolve_handler env (hive\<lparr>shards := map_set (shards hive) sid (shard\<lparr>shard_vm := X\<rparr>)\<rparr>) sid m p
       = (case resolve_handler env hive sid m p of
            Inl e \<Rightarrow> Inl e
          | Inr (s, h) \<Rightarrow> Inr (s\<lparr>shard_vm := X\<rparr>, h))"
  using assms
  by (auto simp: resolve_handler_def map_of_map_set Let_def split: option.splits)

lemma routeToShard_Inr:
  assumes "resolve_handler env hive sid m p = Inr (shard, h)" "shard_vm shard = Some e"
  shows "routeToShard env hive sid m p d
       = (fst (execute env h (handler_context shard d m p) e),
          hive\<lparr>shards := map_set (shards hive) sid
                  (shard\<lparr>shard_vm := Some (snd (execute env h (handler_context shard d m p) e))\<rparr>)\<rparr>)"
  using assms by (simp add: routeToShard_def split: prod.splits)

lemma execute_no_instructions:
  assumes "parse code = []"
  shows "execute env code ctx vm
       = (Inr (if stack vm \<noteq> [] then last (stack vm)
               else JObj (fromEntries (fold (\<lambda>(key, v) vars. map_set vars key v) ctx (variables vm)))),
          vm\<lparr>variables := fold (\<lambda>(key, v) vars. map_set vars key v) ctx (variables vm)\<rparr>)"
  using assms by (simp add: execute_def execute_body.simps)


section \<open>The halted flag (claim C9)\<close>

text \<open>
  Claim C9. Once the halted flag of an engine is set, it stays set: every later
  \<open>execute\<close> on that engine leaves it set and enters \<open>executeInstruction\<close> not
  once. Hence, after any sequence of \<open>routeToShard\<close> calls, a shard whose engine was
  halted still holds a halted engine that has dispatched no further instruction.
\<close>

theorem halted_engine_never_runs:
  assumes "halted e"
  shows "(halted (snd (execute env code ctx e)) \<and> dispatched (snd (execute env code ctx e)) = dispatched e)
       \<and> (engine_of hive sid = Some e \<longrightarrow>
            (\<exists>e'. engine_of (route_all env hive calls) sid = Some e' \<and> halted e' \<and> dispatched e' = dispatched e))"
proof
  show "halted (snd (execute env code ctx e)) \<and> dispatched (snd (execute env code ctx e)) = dispatched e"
    using execute_halted[OF assms] by simp
next
  have "\<And>hive e. engine_of hive sid = Some e \<Longrightarrow> halted e \<Longrightarrow>
          \<exists>e'. engine_of (route_all env hive calls) sid = Some e' \<and> halted e' \<and> dispatched e' = dispatched e"
  proof (induction calls)
    case Nil
    then show ?case by simp
  next
    case (Cons c calls)
    obtain shardId m p d where c: "c = (shardId, m, p, d)" by (cases c)
    obtain e1 where e1: "engine_of (snd (routeToShard env hive shardId m p d)) sid = Some e1"
        "halted e1" "dispatched e1 = dispatched e"
      using routeToShard_engine[OF Cons.prems, of env shardId m p d] by blast
    show ?case using Cons.IH[OF e1(1,2)] e1(3) c by simp
  qed
  then show "engine_of hive sid = Some e \<longrightarrow>
            (\<exists>e'. engine_of (route_all env hive calls) sid = Some e' \<and> halted e' \<and> dispatched e' = dispatched e)"
    using assms by blast
qed

text \<open>
  The theorem at work: the route \<open>/stop\<close> of the example shard runs \<open>[Xul]\<close>;
  the engine it leaves is halted, and two more calls dispatch nothing.
\<close>

theorem halted_engine_never_runs_witness:
  "halted stopped_engine
   \<and> engine_of stopped_hive (JStr (js ''users'')) = Some stopped_engine
   \<and> halted (snd (execute int_builtins (JStr (js ''[Wo 1]'')) [] stopped_engine))
   \<and> dispatched (snd (execute int_builtins (JStr (js ''[Wo 1]'')) [] stopped_engine)) = dispatched stopped_engine
   \<and> (\<exists>e'. engine_of (route_all int_builtins stopped_hive
                  [(JStr (js ''users''), JStr (js ''GET''), JStr (js ''/list''), JNull),
                   (JStr (js ''users''), JStr (js ''GET''), JStr (js ''/idle''), JNull)])
               (JStr (js ''users'')) = Some e'
           \<and> halted e' \<and> dispatched e' = dispatched stopped_engine)"
proof -
  have h: "halted stopped_engine" by (simp add: stopped_engine_def)
  have e: "engine_of stopped_hive (JStr (js ''users'')) = Some stopped_engine" by code_simp
  show ?thesis
    using h e halted_engine_never_runs[OF h, of int_builtins "JStr (js ''[Wo 1]'')" "[]" stopped_hive "JStr (js ''users'')"
        "[(JStr (js ''users''), JStr (js ''GET''), JStr (js ''/list''), JNull),
          (JStr (js ''users''), JStr (js ''GET''), JStr (js ''/idle''), JNull)]"]
    by blast
qed


section \<open>Malformed instructions (claim C3)\<close>

text \<open>
  Claim C3 as stated fails for a literal. \<open>[Wo {bad]\<close> reaches \<open>JSON.parse\<close>, whose
  SyntaxError ends the run: the instruction after it is never dispatched. And
  \<open>[Wo hello]\<close>, whose argument is none of the literal forms, is not skipped
  either: the argument is pushed as a string, and nothing is logged.
\<close>

theorem malformed_literal_counterexample:
  "fst (execute int_builtins (JStr (js ''[Wo {bad]'' @ [10] @ js ''[Wo 1]'')) [] KuhulVM_new) = Inl SyntaxError
   \<and> stack (snd (execute int_builtins (JStr (js ''[Wo {bad]'' @ [10] @ js ''[Wo 1]'')) [] KuhulVM_new)) = []
   \<and> dispatched (snd (execute int_builtins (JStr (js ''[Wo {bad]'' @ [10] @ js ''[Wo 1]'')) [] KuhulVM_new)) = 1
   \<and> execute int_builtins (JStr (js ''[Wo hello]'')) [] KuhulVM_new
       = (Inr (JStr (js ''hello'')), KuhulVM_new\<lparr>stack := [JStr (js ''hello'')], dispatched := 1\<rparr>)"
  by code_simp

text \<open>
  Claim C3, as amended. An instruction whose glyph is neither in the glyph table nor
  the name of a member of \<open>Object.prototype\<close> is skipped: the engine only records
  the dispatch and the diagnostic, and the loop goes on with the remaining
  instructions. An argument of \<open>Wo\<close> that is not quoted, not a boolean, not a number
  and does not start with a brace or a bracket is pushed unchanged, as a string.
\<close>

theorem unknown_glyph_is_skipped:
  assumes "g \<notin> set glyph_names" "\<not> proto_member g"
  shows "executeInstruction env (Glyph g args) vm
           = (None, vm\<lparr>dispatched := Suc (dispatched vm), warnings := warnings vm @ [unknown_glyph_warning g]\<rparr>)
       \<and> (\<not> halted vm \<longrightarrow>
            run_instructions env (Glyph g args # rest) vm
              = run_instructions env rest
                  (vm\<lparr>dispatched := Suc (dispatched vm), warnings := warnings vm @ [unknown_glyph_warning g]\<rparr>))
       \<and> (\<not> quoted (join [32] ws) \<and> join [32] ws \<noteq> js ''true'' \<and> join [32] ws \<noteq> js ''false''
            \<and> isNaN env (join [32] ws) \<and> \<not> startsWith (join [32] ws) [123] \<and> \<not> startsWith (join [32] ws) [91]
          \<longrightarrow> executeInstruction env (Glyph (js ''Wo'') ws) vm
                = (None, push (JStr (join [32] ws)) (vm\<lparr>dispatched := Suc (dispatched vm)\<rparr>)))"
  using executeInstruction_unknown[OF assms, of env args vm] executeInstruction_Wo_plain[of ws env vm]
  by (simp add: run_instructions_def)

text \<open>
  The theorem at work, on the program of the specification's fourth scenario and on
  \<open>[Wo hello world]\<close>.
\<close>

theorem unknown_glyph_is_skipped_witness:
  "js ''Zzz'' \<notin> set glyph_names \<and> \<not> proto_member (js ''Zzz'') \<and> \<not> halted (KuhulVM_new :: int kuhul_vm)
   \<and> run_instructions int_builtins [Glyph (js ''Zzz'') [js ''foo''], Glyph (js ''Wo'') [js ''7''], Glyph (js ''Xul'') []] KuhulVM_new
       = run_instructions int_builtins [Glyph (js ''Wo'') [js ''7''], Glyph (js ''Xul'') []]
           (KuhulVM_new\<lparr>dispatched := 1, warnings := [unknown_glyph_warning (js ''Zzz'')]\<rparr>)
   \<and> executeInstruction int_builtins (Glyph (js ''Wo'') [js ''hello'', js ''world'']) KuhulVM_new
       = (None, push (JStr (js ''hello world'')) (KuhulVM_new\<lparr>dispatched := 1\<rparr>))"
proof -
  have a: "js ''Zzz'' \<notin> set glyph_names" by code_simp
  have b: "\<not> proto_member (js ''Zzz'')" by code_simp
  have c: "\<not> halted (KuhulVM_new :: int kuhul_vm)" by (simp add: KuhulVM_new_def)
  have d: "\<not> quoted (join [32] [js ''hello'', js ''world'']) \<and> join [32] [js ''hello'', js ''world''] \<noteq> js ''true''
      \<and> join [32] [js ''hello'', js ''world''] \<noteq> js ''false''
      \<and> isNaN int_builtins (join [32] [js ''hello'', js ''world''])
      \<and> \<not> startsWith (join [32] [js ''hello'', js ''world'']) [123] \<and> \<not> startsWith (join [32] [js ''hello'', js ''world'']) [91]"
    by code_simp
  have e: "join [32] [js ''hello'', js ''world''] = js ''hello world''" by code_simp
  show ?thesis
    using a b c d e
      unknown_glyph_is_skipped[OF a b, of int_builtins "[js ''foo'']" KuhulVM_new
         "[Glyph (js ''Wo'') [js ''7''], Glyph (js ''Xul'') []]" "[js ''hello'', js ''world'']"]
    by (simp add: KuhulVM_new_def)
qed


section \<open>Failures of routing (claim C4)\<close>

text \<open>
  Claim C4 as stated fails: with an unknown shard id \<open>routeToShard\<close> ends by
  throwing; what it throws is a plain \<open>Error\<close>, told from other failures only by its
  message.
\<close>

theorem routeToShard_unknown_shard_counterexample:
  "routeToShard int_builtins (HiveOrchestrator_new (js ''hive-0'')) (JStr (js ''nope'')) (JStr (js ''GET'')) (JStr (js ''/list'')) JNull
     = (Inl (Error (js ''Shard not found: nope'')), HiveOrchestrator_new (js ''hive-0''))"
  by code_simp

text \<open>
  Claim C4, as amended. For arguments that convert to strings, \<open>routeToShard\<close>
  throws \<open>Error("Shard not found: <id>")\<close> when the shard map has no shard for the id,
  and \<open>Error("No handler for <METHOD>:<path> in shard <id>")\<close> when the shard has no
  handler, or a falsy one, bound to the key; in both cases the hive is unchanged.
\<close>

theorem routeToShard_not_found:
  assumes "js_String env shardId = Some sid" "js_String env method = Some ms" "js_String env path = Some ps"
  shows "(map_of (shards hive) shardId = None \<longrightarrow>
            routeToShard env hive shardId method path data
              = (Inl (Error (js ''Shard not found: '' @ sid)), hive))
       \<and> (\<forall>shard. map_of (shards hive) shardId = Some shard
              \<and> \<not> truthy env (case map_of (handlers shard) (ms @ js '':'' @ ps) of Some h \<Rightarrow> h | None \<Rightarrow> JUndef)
            \<longrightarrow> routeToShard env hive shardId method path data
                  = (Inl (Error (js ''No handler for '' @ ms @ js '':'' @ ps @ js '' in shard '' @ sid)), hive))"
  using assms by (simp add: routeToShard_def resolve_handler_def Let_def)

text \<open>The theorem at work, on the example hive: an unknown shard, then an unknown route.\<close>

theorem routeToShard_not_found_witness:
  "js_String int_builtins (JStr (js ''nope'')) = Some (js ''nope'')
   \<and> js_String int_builtins (JStr (js ''users'')) = Some (js ''users'')
   \<and> js_String int_builtins (JStr (js ''GET'')) = Some (js ''GET'')
   \<and> js_String int_builtins (JStr (js ''/missing'')) = Some (js ''/missing'')
   \<and> map_of (shards example_hive) (JStr (js ''nope'')) = None
   \<and> routeToShard int_builtins example_hive (JStr (js ''nope'')) (JStr (js ''GET'')) (JStr (js ''/missing'')) JNull
        = (Inl (Error (js ''Shard not found: '' @ js ''nope'')), example_hive)
   \<and> routeToShard int_builtins example_hive (JStr (js ''users'')) (JStr (js ''GET'')) (JStr (js ''/missing'')) JNull
        = (Inl (Error (js ''No handler for '' @ js ''GET'' @ js '':'' @ js ''/missing'' @ js '' in shard '' @ js ''users'')), example_hive)"
proof -
  have a: "js_String int_builtins (JStr (js ''nope'')) = Some (js ''nope'')" by simp
  have b: "js_String int_builtins (JStr (js ''users'')) = Some (js ''users'')" by simp
  have c: "js_String int_builtins (JStr (js ''GET'')) = Some (js ''GET'')" by simp
  have d: "js_String int_builtins (JStr (js ''/missing'')) = Some (js ''/missing'')" by simp
  have e: "map_of (shards example_hive) (JStr (js ''nope'')) = None" by code_simp
  have f: "map_of (shards example_hive) (JStr (js ''users'')) = Some example_users
              \<and> \<not> truthy int_builtins (case map_of (handlers example_users) (js ''GET'' @ js '':'' @ js ''/missing'') of Some h \<Rightarrow> h | None \<Rightarrow> JUndef)"
    by code_simp
  show ?thesis
    using a b c d e f
      routeToShard_not_found[OF a c d, of example_hive JNull]
      routeToShard_not_found[OF b c d, of example_hive JNull]
    by blast
qed


section \<open>The lifetime of the engine state (claim C2)\<close>

text \<open>
  Claim C2 as stated fails. On the example hive the route \<open>/idle\<close>, whose handler
  has no instruction, returns the variables; called after \<open>/list\<close> it returns
  \<open>"hello"\<close>, the value that \<open>/list\<close> left on the stack.
\<close>

theorem engine_state_leaks_counterexample:
  "fst (routeToShard int_builtins example_hive (JStr (js ''users'')) (JStr (js ''GET'')) (JStr (js ''/idle'')) JNull)
     = Inr (JObj [(js ''shard'', JShard (JStr (js ''users''))), (js ''data'', JNull),
                  (js ''method'', JStr (js ''GET'')), (js ''path'', JStr (js ''/idle''))])
   \<and> fst (routeToShard int_builtins
            (snd (routeToShard int_builtins example_hive (JStr (js ''users'')) (JStr (js ''GET'')) (JStr (js ''/list'')) JNull))
            (JStr (js ''users'')) (JStr (js ''GET'')) (JStr (js ''/idle'')) JNull)
     = Inr (JStr (js ''hello''))"
  by code_simp

text \<open>
  Claim C2, as amended. The engine of a shard is made once, by \<open>createShard\<close>, and
  \<open>routeToShard\<close> runs every handler in it: the second of two calls to a shard
  returns what \<open>execute\<close> returns on the engine as the first call left it. In
  particular, when the second handler has no instruction and the first call left
  the stack non-empty, the second call returns the top of that stack.
\<close>

theorem engine_state_persists:
  assumes "resolve_handler env hive sid m1 p1 = Inr (shard, h1)"
    and "resolve_handler env hive sid m2 p2 = Inr (shard, h2)"
    and "shard_vm shard = Some e"
  shows "fst (routeToShard env (snd (routeToShard env hive sid m1 p1 d1)) sid m2 p2 d2)
           = fst (execute env h2 (handler_context shard d2 m2 p2)
                    (snd (execute env h1 (handler_context shard d1 m1 p1) e)))
       \<and> (parse h2 = [] \<and> stack (snd (execute env h1 (handler_context shard d1 m1 p1) e)) \<noteq> []
          \<longrightarrow> fst (routeToShard env (snd (routeToShard env hive sid m1 p1 d1)) sid m2 p2 d2)
                = Inr (last (stack (snd (execute env h1 (handler_context shard d1 m1 p1) e)))))"
proof -
  let ?e1 = "snd (execute env h1 (handler_context shard d1 m1 p1) e)"
  let ?hive1 = "hive\<lparr>shards := map_set (shards hive) sid (shard\<lparr>shard_vm := Some ?e1\<rparr>)\<rparr>"
  have look: "map_of (shards hive) sid = Some shard"
    using resolve_handler_shard[OF assms(1)] .
  have first: "snd (routeToShard env hive sid m1 p1 d1) = ?hive1"
    using routeToShard_Inr[OF assms(1,3)] by simp
  have res2: "resolve_handler env ?hive1 sid m2 p2 = Inr (shard\<lparr>shard_vm := Some ?e1\<rparr>, h2)"
    using resolve_handler_after[OF look, of env "Some ?e1" m2 p2] assms(2) by simp
  have second: "fst (routeToShard env ?hive1 sid m2 p2 d2)
      = fst (execute env h2 (handler_context shard d2 m2 p2) ?e1)"
    using routeToShard_Inr[OF res2, of ?e1 d2] by (simp add: handler_context_def)
  show ?thesis using first second by (simp add: execute_no_instructions)
qed

text \<open>The theorem at work, on the two calls of the counterexample.\<close>

theorem engine_state_persists_witness:
  "resolve_handler int_builtins example_hive (JStr (js ''users'')) (JStr (js ''GET'')) (JStr (js ''/list''))
     = Inr (example_users, JStr (js ''[Wo \"hello\"]''))
   \<and> resolve_handler int_builtins example_hive (JStr (js ''users'')) (JStr (js ''GET'')) (JStr (js ''/idle''))
     = Inr (example_users, JStr (js ''# nothing to do''))
   \<and> shard_vm example_users = Some KuhulVM_new
   \<and> parse (JStr (js ''# nothing to do'') :: int jsval) = []
   \<and> stack (snd (execute int_builtins (JStr (js ''[Wo \"hello\"]''))
                  (handler_context example_users JNull (JStr (js ''GET'')) (JStr (js ''/list''))) KuhulVM_new))
       = [JStr (js ''hello'')]
   \<and> fst (routeToShard int_builtins
            (snd (routeToShard int_builtins example_hive (JStr (js ''users'')) (JStr (js ''GET'')) (JStr (js ''/list'')) JNull))
            (JStr (js ''users'')) (JStr (js ''GET'')) (JStr (js ''/idle'')) JNull)
     = Inr (JStr (js ''hello''))"
proof -
  have a: "resolve_handler int_builtins example_hive (JStr (js ''users'')) (JStr (js ''GET'')) (JStr (js ''/list''))
     = Inr (example_users, JStr (js ''[Wo \"hello\"]''))" by code_simp
  have b: "resolve_handler int_builtins example_hive (JStr (js ''users'')) (JStr (js ''GET'')) (JStr (js ''/idle''))
     = Inr (example_users, JStr (js ''# nothing to do''))" by code_simp
  have c: "shard_vm example_users = Some KuhulVM_new" by (simp add: example_users_def)
  have d: "parse (JStr (js ''# nothing to do'') :: int jsval) = []" by code_simp
  have e: "stack (snd (execute int_builtins (JStr (js ''[Wo \"hello\"]''))
                  (handler_context example_users JNull (JStr (js ''GET'')) (JStr (js ''/list''))) KuhulVM_new))
       = [JStr (js ''hello'')]" by code_simp
  have ne: "stack (snd (execute int_builtins (JStr (js ''[Wo \"hello\"]''))
                  (handler_context example_users JNull (JStr (js ''GET'')) (JStr (js ''/list''))) KuhulVM_new)) \<noteq> []"
    using e by simp
  have "fst (routeToShard int_builtins
            (snd (routeToShard int_builtins example_hive (JStr (js ''users'')) (JStr (js ''GET'')) (JStr (js ''/list'')) JNull))
            (JStr (js ''users'')) (JStr (js ''GET'')) (JStr (js ''/idle'')) JNull)
     = Inr (last (stack (snd (execute int_builtins (JStr (js ''[Wo \"hello\"]''))
                  (handler_context example_users JNull (JStr (js ''GET'')) (JStr (js ''/list''))) KuhulVM_new))))"
    using conjunct2[OF engine_state_persists[OF a b c, of JNull JNull]] d ne by blast
  then have f: "fst (routeToShard int_builtins
            (snd (routeToShard int_builtins example_hive (JStr (js ''users'')) (JStr (js ''GET'')) (JStr (js ''/list'')) JNull))
            (JStr (js ''users'')) (JStr (js ''GET'')) (JStr (js ''/idle'')) JNull)
     = Inr (JStr (js ''hello''))"
    using e by simp
  show ?thesis
    using a b c d e f by blast
qed


section \<open>Properties of the codec and of shard creation\<close>

lemma replace_word_no_sep:
  "x \<notin> set short \<Longrightarrow> x \<notin> set s \<Longrightarrow> x \<notin> set (replace_word full short prev s)"
proof (induction full short prev s rule: replace_word.induct)
  case (1 full short prev)
  then show ?case by simp
next
  case (2 full short prev c cs)
  have "x \<notin> set (drop (length full) (c # cs))"
    using 2(4) by (meson in_set_dropD)
  then show ?case using 2 by (simp del: replace_word.simps add: replace_word.simps(2)[of full short prev c cs])
qed

lemma fold_replace_no_sep:
  "list_all (\<lambda>(full, short). x \<notin> set short) dict \<Longrightarrow> x \<notin> set s
   \<Longrightarrow> x \<notin> set (fold (\<lambda>(full, short) compressed. replace_word full short False compressed) dict s)"
proof (induction dict arbitrary: s)
  case Nil
  then show ?case by simp
next
  case (Cons p dict)
  obtain full short where p: "p = (full, short)" by (cases p)
  have "x \<notin> set (replace_word full short False s)"
    using Cons.prems p replace_word_no_sep[of x short s full False] by simp
  then show ?case using Cons.IH[of "replace_word full short False s"] Cons.prems(1) p by simp
qed

lemma dictionary_tokens_no_sep: "list_all (\<lambda>(full, short). separator \<notin> set short) dictionary"
  by code_simp

lemma split_on_none: "\<not> list_ex P s \<Longrightarrow> split_on P s = [s]"
  by (induction s) auto

lemma split_on_head: "P c \<Longrightarrow> \<not> list_ex P s \<Longrightarrow> split_on P (c # s) = [[], s]"
  by (simp add: split_on_none)

lemma decompress_empty: "decompressObject (JObj []) = JObj []"
  by (simp add: decompressObject_def)

lemma distinct_one_binding:
  "distinct (map fst xs) \<Longrightarrow> k \<in> fst ` set xs \<Longrightarrow> length (filter (\<lambda>binding. fst binding = k) xs) = 1"
proof (induction xs)
  case Nil
  then show ?case by simp
next
  case (Cons x xs)
  show ?case
  proof (cases "fst x = k")
    case True
    then have "k \<notin> fst ` set xs" using Cons.prems(1) by simp
    then have "filter (\<lambda>binding. fst binding = k) xs = []"
      by (auto simp: filter_empty_conv)
    then show ?thesis using True by simp
  next
    case False
    then show ?thesis using Cons by auto
  qed
qed

lemma map_set_distinct: "distinct (map fst m) \<Longrightarrow> distinct (map fst (map_set m k v))"
  by (auto simp: map_set_def map_upd_keys simp del: set_map)

lemma compile_handlers_append:
  "compile_handlers env (xs @ ys) hs
     = (case compile_handlers env xs hs of Inl e \<Rightarrow> Inl e | Inr hs' \<Rightarrow> compile_handlers env ys hs')"
  by (induction xs arbitrary: hs) (auto split: sum.splits)

lemma compile_handlers_distinct:
  "compile_handlers env rs hs = Inr hs' \<Longrightarrow> distinct (map fst hs) \<Longrightarrow> distinct (map fst hs')"
proof (induction rs arbitrary: hs)
  case Nil
  then show ?case by simp
next
  case (Cons r rs)
  then show ?case by (auto split: sum.splits dest: map_set_distinct)
qed

lemma compile_handlers_keep:
  "compile_handlers env rs hs = Inr hs'
   \<Longrightarrow> list_all (\<lambda>r. case route_binding env r of Inr (k, h) \<Rightarrow> k \<noteq> key | Inl e \<Rightarrow> True) rs
   \<Longrightarrow> map_of hs' key = map_of hs key"
proof (induction rs arbitrary: hs)
  case Nil
  then show ?case by simp
next
  case (Cons r rs)
  then show ?case by (auto split: sum.splits simp: map_of_map_set)
qed

lemma shard_instance_handlers:
  "shard_instance env uuid now shard = Inr inst
   \<Longrightarrow> \<exists>routes. iterate (api inst) = Inr routes \<and> compile_handlers env routes [] = Inr (handlers inst)"
  by (auto simp: shard_instance_def split: sum.splits)

lemma shard_instance_engine:
  "shard_instance env uuid now shard = Inr inst
   \<Longrightarrow> shard_vm inst = (if runtime inst = JStr (js ''kuhul'') then Some KuhulVM_new else None)"
  by (auto simp: shard_instance_def split: sum.splits)

lemma createShard_Inr:
  assumes "createShard env uuid now hive shardDef = (Inr inst, hive')"
  shows "\<exists>shard rs eps. read_definition env shardDef = Inr shard
           \<and> shard_instance env uuid now shard = Inr inst
           \<and> api inst = JArr rs \<and> map_endpoints env rs = Inr eps
           \<and> hive' = hive\<lparr>shards := map_set (shards hive) (shard_id inst) inst,
                           registry := map_set (registry hive) (shard_id inst)
                              \<lparr>reg_id = shard_id inst, reg_port = port inst, endpoints = eps\<rparr>\<rparr>"
  using assms
  by (auto simp: createShard_def Let_def split: sum.splits jsval.splits)

lemma createShard_registers:
  assumes "createShard env uuid now hive shardDef = (Inr inst, hive')"
  shows "map_of (shards hive') (shard_id inst) = Some inst
       \<and> (\<exists>eps. map_of (registry hive') (shard_id inst)
                   = Some \<lparr>reg_id = shard_id inst, reg_port = port inst, endpoints = eps\<rparr>)"
  using createShard_Inr[OF assms] by (auto simp: map_of_map_set)

lemma createShard_same_ids:
  assumes "createShard env uuid now hive shardDef = (Inr inst, hive')"
    and "set (map fst (shards hive)) = set (map fst (registry hive))"
  shows "set (map fst (shards hive')) = set (map fst (registry hive'))"
proof -
  have k: "\<And>m k v. set (map fst (map_set m k v)) = insert k (set (map fst m))"
    by (auto simp: map_set_def map_upd_keys simp del: set_map)
  show ?thesis using createShard_Inr[OF assms(1)] assms(2) by (auto simp: k simp del: set_map)
qed


section \<open>Free text through the codec (claim C10)\<close>

text \<open>
  Claim C10. For a string that \<open>JSON.parse\<close> rejects and that holds no separator,
  \<open>encode\<close> returns the separator followed by the text with the dictionary
  substituted, and \<open>decode\<close> of that is the empty object, not the string: the
  only path of the encoded text is empty and is skipped.
\<close>

theorem free_text_is_not_reversible:
  assumes "JSON_parse env s = None" and "separator \<notin> set s"
  shows "encode env (JStr s)
           = separator # fold (\<lambda>(full, short) compressed. replace_word full short False compressed) dictionary s
       \<and> decode env (encode env (JStr s)) = Inr (JObj [])
       \<and> decode env (encode env (JStr s)) \<noteq> Inr (JStr s)"
proof -
  let ?t = "fold (\<lambda>(full, short) compressed. replace_word full short False compressed) dictionary s"
  have enc: "encode env (JStr s) = separator # ?t"
    using assms(1) by (simp add: encode_def compressString_def)
  have "separator \<notin> set ?t"
    using fold_replace_no_sep[OF dictionary_tokens_no_sep assms(2)] .
  then have "\<not> list_ex (\<lambda>c. c = separator) ?t" by (simp add: list_ex_iff)
  then have "split_on (\<lambda>c. c = separator) (separator # ?t) = [[], ?t]"
    by (simp add: split_on_none)
  then have "decode env (separator # ?t) = Inr (JObj [])"
    by (simp add: decode_def scxStringToObject_def decompress_empty)
  then show ?thesis using enc by simp
qed

text \<open>The theorem at work on the line \<open>[Wo hello]\<close>.\<close>

theorem free_text_is_not_reversible_witness:
  "JSON_parse int_builtins (js ''[Wo hello]'') = None
   \<and> separator \<notin> set (js ''[Wo hello]'')
   \<and> encode int_builtins (JStr (js ''[Wo hello]'')) = separator # js ''[W hello]''
   \<and> decode int_builtins (encode int_builtins (JStr (js ''[Wo hello]''))) = Inr (JObj [])
   \<and> decode int_builtins (encode int_builtins (JStr (js ''[Wo hello]''))) \<noteq> Inr (JStr (js ''[Wo hello]''))"
proof -
  have a: "JSON_parse int_builtins (js ''[Wo hello]'') = None" by (simp add: int_builtins_def)
  have b: "separator \<notin> set (js ''[Wo hello]'')" by code_simp
  have c: "fold (\<lambda>(full, short) compressed. replace_word full short False compressed) dictionary (js ''[Wo hello]'')
       = js ''[W hello]''" by code_simp
  note th = free_text_is_not_reversible[OF a b]
  have e: "encode int_builtins (JStr (js ''[Wo hello]'')) = separator # js ''[W hello]''"
    using conjunct1[OF th] c by simp
  show ?thesis
    using a b e conjunct1[OF conjunct2[OF th]] conjunct2[OF conjunct2[OF th]] by blast
qed


section \<open>Duplicate routes (claim C5)\<close>

text \<open>
  Claim C5. When \<open>createShard\<close> succeeds on a definition whose \<open>api\<close> declares two
  routes with the same key \<open>METHOD:path\<close>, and no route after the later of them has
  that key, the handler map of the instance binds the key exactly once, to the
  handler of the later route.
\<close>

theorem last_declared_route_wins:
  assumes "createShard env uuid now hive shardDef = (Inr inst, hive')"
    and "api inst = JArr (before @ [earlier] @ between @ [later] @ after)"
    and "route_binding env earlier = Inr (key, h1)"
    and "route_binding env later = Inr (key, h2)"
    and "list_all (\<lambda>r. case route_binding env r of Inr (k, h) \<Rightarrow> k \<noteq> key | Inl e \<Rightarrow> True) after"
  shows "map_of (handlers inst) key = Some h2
       \<and> length (filter (\<lambda>binding. fst binding = key) (handlers inst)) = 1"
proof -
  obtain shard where si: "shard_instance env uuid now shard = Inr inst"
    using createShard_Inr[OF assms(1)] by blast
  have comp: "compile_handlers env (before @ [earlier] @ between @ [later] @ after) [] = Inr (handlers inst)"
    using shard_instance_handlers[OF si] assms(2) by (auto simp: iterate_def)
  have "compile_handlers env ((before @ [earlier] @ between) @ later # after) [] = Inr (handlers inst)"
    using comp by simp
  then obtain hs0 where hs0: "compile_handlers env (before @ [earlier] @ between) [] = Inr hs0"
    and rest: "compile_handlers env (later # after) hs0 = Inr (handlers inst)"
    unfolding compile_handlers_append by (auto split: sum.splits)
  have after: "compile_handlers env after (map_set hs0 key h2) = Inr (handlers inst)"
    using rest assms(4) by simp
  have look: "map_of (handlers inst) key = Some h2"
    using compile_handlers_keep[OF after assms(5)] by (simp add: map_of_map_set)
  have dist: "distinct (map fst (handlers inst))"
    using compile_handlers_distinct[OF comp] by simp
  have "key \<in> fst ` set (handlers inst)"
    using map_of_SomeD[OF look] by force
  then have "length (filter (\<lambda>binding. fst binding = key) (handlers inst)) = 1"
    using distinct_one_binding[OF dist] by simp
  then show ?thesis using look by simp
qed

text \<open>The theorem at work on the shard that declares \<open>GET /a\<close> twice.\<close>

theorem last_declared_route_wins_witness:
  "fst (createShard int_builtins (js ''generated-id'') 0 (HiveOrchestrator_new (js ''hive-0'')) duplicate_routes_shard)
     = Inr duplicate_routes_instance
   \<and> route_binding int_builtins
        (JObj [(js ''path'', JStr (js ''/a'')), (js ''method'', JStr (js ''GET'')), (js ''handler'', JStr (js ''[Wo 1]''))])
       = Inr (js ''GET:/a'', JStr (js ''[Wo 1]''))
   \<and> route_binding int_builtins
        (JObj [(xjson_prefix @ js ''path'', JStr (js ''/a'')), (js ''handler'', JStr (js ''[Wo 2]''))])
       = Inr (js ''GET:/a'', JStr (js ''[Wo 2]''))
   \<and> map_of (handlers duplicate_routes_instance) (js ''GET:/a'') = Some (JStr (js ''[Wo 2]''))
   \<and> length (filter (\<lambda>binding. fst binding = js ''GET:/a'') (handlers duplicate_routes_instance)) = 1"
proof -
  let ?r1 = "JObj [(js ''path'', JStr (js ''/a'')), (js ''method'', JStr (js ''GET'')), (js ''handler'', JStr (js ''[Wo 1]''))] :: int jsval"
  let ?r2 = "JObj [(xjson_prefix @ js ''path'', JStr (js ''/a'')), (js ''handler'', JStr (js ''[Wo 2]''))] :: int jsval"
  let ?run = "createShard int_builtins (js ''generated-id'') 0 (HiveOrchestrator_new (js ''hive-0'')) duplicate_routes_shard"
  have a: "fst ?run = Inr duplicate_routes_instance" by code_simp
  then have a': "?run = (Inr duplicate_routes_instance, snd ?run)" by (metis prod.collapse)
  have b: "api duplicate_routes_instance = JArr ([] @ [?r1] @ [] @ [?r2] @ [])"
    by (simp add: duplicate_routes_instance_def)
  have c: "route_binding int_builtins ?r1 = Inr (js ''GET:/a'', JStr (js ''[Wo 1]''))" by code_simp
  have d: "route_binding int_builtins ?r2 = Inr (js ''GET:/a'', JStr (js ''[Wo 2]''))" by code_simp
  have e: "list_all (\<lambda>r. case route_binding int_builtins r of Inr (k, h) \<Rightarrow> k \<noteq> js ''GET:/a'' | Inl e \<Rightarrow> True) []"
    by simp
  show ?thesis
    using a c d last_declared_route_wins[OF a' b c d e] by blast
qed


section \<open>The shard map and the registry (claim C6)\<close>

text \<open>
  Claim C6 holds of every call that succeeds (\<open>createShard_registers\<close>,
  \<open>createShard_same_ids\<close> above), but not of the hive at all times. The shard map
  is written before the registry entry is built, and building it calls
  \<open>api.map\<close>. A definition whose \<open>api\<close> is a string passes the loop over its
  routes, is written to the shard map, and then fails for want of \<open>map\<close>: the call
  throws and the shard map holds an id that the registry lacks.
\<close>

theorem failed_createShard_leaves_half_an_entry:
  "fst (createShard int_builtins (js ''generated-id'') 0 (HiveOrchestrator_new (js ''hive-0''))
          (JObj [(js ''id'', JStr (js ''x'')), (js ''api'', JStr (js ''abc''))]))
     = Inl TypeError
   \<and> map fst (shards (snd (createShard int_builtins (js ''generated-id'') 0 (HiveOrchestrator_new (js ''hive-0''))
          (JObj [(js ''id'', JStr (js ''x'')), (js ''api'', JStr (js ''abc''))]))))
     = [JStr (js ''x'')]
   \<and> map fst (registry (snd (createShard int_builtins (js ''generated-id'') 0 (HiveOrchestrator_new (js ''hive-0''))
          (JObj [(js ''id'', JStr (js ''x'')), (js ''api'', JStr (js ''abc''))]))))
     = []"
  by code_simp


section \<open>Determinism of the engine (claim C8)\<close>




















end
